(* ===== verification/Prelude.thy ===== *)
theory Prelude
  imports Main "HOL-Library.Word" "HOL-Library.Code_Target_Nat"
begin

text \<open>
  The vocabulary every component shares: Go byte slices and strings, results with an
  error, the big-endian integers of \<^verbatim>\<open>encoding/binary\<close>, and reading from an
  \<^verbatim>\<open>io.Reader\<close>.

  A Go string and a Go byte slice are both sequences of bytes; both are \<^typ>\<open>char list\<close>
  here (a \<^typ>\<open>char\<close> of HOL is exactly one of 256 bytes), so the conversions
  \<^verbatim>\<open>string(b)\<close> and \<^verbatim>\<open>[]byte(s)\<close> of the source are the identity. A
  function that returns \<^verbatim>\<open>(v, error)\<close> returns \<open>'e + 'v\<close>, \<open>Inl\<close> being the error.
\<close>

type_synonym byte = char
type_synonym bytes = "char list"

named_theorems outcome_iffs \<open>when an operation succeeds, and with what\<close>

subsection \<open>Results\<close>

abbreviation is_ok :: "'e + 'a \<Rightarrow> bool" where
  "is_ok r \<equiv> \<not> isl r"

fun bind_result :: "'e + 'a \<Rightarrow> ('a \<Rightarrow> 'e + 'b) \<Rightarrow> 'e + 'b" where
  "bind_result (Inl e) f = Inl e"
| "bind_result (Inr a) f = f a"

lemma bind_result_Inr_iff [outcome_iffs]:
  "bind_result r f = Inr b \<longleftrightarrow> (\<exists>a. r = Inr a \<and> f a = Inr b)"
  by (cases r) auto

lemma bind_result_Inl_iff:
  "bind_result r f = Inl e \<longleftrightarrow> r = Inl e \<or> (\<exists>a. r = Inr a \<and> f a = Inl e)"
  by (cases r) auto

lemma case_sum_Inr_iff:
  "(case r of Inl e \<Rightarrow> Inl e | Inr a \<Rightarrow> f a) = Inr b \<longleftrightarrow> (\<exists>a. r = Inr a \<and> f a = Inr b)"
  by (cases r) auto

subsection \<open>Bytes and big-endian integers\<close>

text \<open>The NUL byte that terminates the strings of a Postgres startup message.\<close>

abbreviation nul :: byte where
  "nul \<equiv> CHR 0x00"

definition byte_of :: "nat \<Rightarrow> byte" where
  "byte_of n = char_of n"

lemma of_char_byte_of [simp]: "of_char (byte_of n) = n mod (256 :: nat)"
  by (simp add: byte_of_def)

lemma byte_of_of_char [simp]: "byte_of (of_char c) = c"
  by (simp add: byte_of_def)

lemma of_char_lt_256 [simp]: "of_char c < (256 :: nat)"
proof -
  have "of_char c = (of_char c :: nat) mod 256"
    using of_char_byte_of [of "of_char c"] by simp
  then show ?thesis
    by (metis mod_less_divisor zero_less_numeral)
qed

text \<open>\<open>be_val\<close> reads a byte slice as a big-endian number; \<open>be_put n v\<close> is the
  \<open>n\<close>-byte big-endian form of \<open>v\<close>, which keeps \<open>v mod 256 ^ n\<close> as a conversion to a
  Go \<^verbatim>\<open>uint16\<close> or \<^verbatim>\<open>uint32\<close> does.\<close>

definition be_val :: "bytes \<Rightarrow> nat" where
  "be_val bs = foldl (\<lambda>acc b. acc * 256 + of_char b) 0 bs"

fun be_put :: "nat \<Rightarrow> nat \<Rightarrow> bytes" where
  "be_put 0 v = []"
| "be_put (Suc n) v = be_put n (v div 256) @ [byte_of v]"

lemma be_val_Nil [simp]: "be_val [] = 0"
  by (simp add: be_val_def)

lemma be_val_snoc [simp]: "be_val (bs @ [b]) = be_val bs * 256 + of_char b"
  by (simp add: be_val_def)

lemma be_val_Cons: "be_val (b # bs) = of_char b * 256 ^ length bs + be_val bs"
proof (induction bs rule: rev_induct)
  case (snoc c bs)
  have "be_val (b # bs @ [c]) = be_val (b # bs) * 256 + of_char c"
    using be_val_snoc [of "b # bs" c] by simp
  with snoc show ?case by (simp add: algebra_simps)
qed (simp add: be_val_def)

lemma length_be_put [simp]: "length (be_put n v) = n"
  by (induction n arbitrary: v) auto

lemma be_val_be_put: "be_val (be_put n v) = v mod 256 ^ n"
proof (induction n arbitrary: v)
  case 0
  then show ?case by simp
next
  case (Suc n)
  have "v mod (256 * 256 ^ n) = 256 * (v div 256 mod 256 ^ n) + v mod 256"
    by (rule mod_mult2_eq)
  then show ?case
    using Suc by simp
qed

lemma be_val_be_put_id: "v < 256 ^ n \<Longrightarrow> be_val (be_put n v) = v"
  by (simp add: be_val_be_put)

lemma be_val_less: "be_val bs < 256 ^ length bs"
proof (induction bs rule: rev_induct)
  case Nil
  then show ?case by simp
next
  case (snoc b bs)
  have "be_val bs * 256 + of_char b < (be_val bs + 1) * 256"
    using of_char_lt_256 [of b] by simp
  also have "\<dots> \<le> 256 ^ length bs * 256"
    using snoc by (intro mult_right_mono) auto
  finally show ?case by simp
qed

lemma be_put_be_val: "be_put (length bs) (be_val bs) = bs"
proof (induction bs rule: rev_induct)
  case Nil
  then show ?case by simp
next
  case (snoc b bs)
  have "byte_of (be_val bs * 256 + of_char b) = b"
    by (metis byte_of_def byte_of_of_char char_of_mod_256 mod_mult_self3)
  then show ?case
    using snoc by simp
qed

text \<open>\<^verbatim>\<open>binary.BigEndian.Uint16\<close>, \<^verbatim>\<open>Uint32\<close> and their \<^verbatim>\<open>Put\<close> forms. Every
  call of the source is on a slice of exactly that many bytes.\<close>

definition Uint16 :: "bytes \<Rightarrow> nat" where
  "Uint16 bs = be_val (take 2 bs)"

definition Uint32 :: "bytes \<Rightarrow> nat" where
  "Uint32 bs = be_val (take 4 bs)"

abbreviation PutUint16 :: "nat \<Rightarrow> bytes" where
  "PutUint16 v \<equiv> be_put 2 v"

abbreviation PutUint32 :: "nat \<Rightarrow> bytes" where
  "PutUint32 v \<equiv> be_put 4 v"

lemma Uint16_Put [simp]: "Uint16 (PutUint16 v @ rest) = v mod 65536"
  by (simp add: Uint16_def be_val_be_put)

lemma Uint32_Put [simp]: "Uint32 (PutUint32 v @ rest) = v mod 4294967296"
  by (simp add: Uint32_def be_val_be_put)

lemma Uint32_less: "Uint32 bs < 4294967296"
proof -
  have "be_val (take 4 bs) < 256 ^ length (take 4 bs)"
    by (rule be_val_less)
  also have "\<dots> \<le> 256 ^ 4"
    by (intro power_increasing) auto
  finally show ?thesis by (simp add: Uint32_def)
qed

lemma Uint16_less: "Uint16 bs < 65536"
proof -
  have "be_val (take 2 bs) < 256 ^ length (take 2 bs)"
    by (rule be_val_less)
  also have "\<dots> \<le> 256 ^ 2"
    by (intro power_increasing) auto
  finally show ?thesis by (simp add: Uint16_def)
qed

lemma Put_Uint32: "length bs = 4 \<Longrightarrow> PutUint32 (Uint32 bs) = bs"
  using be_put_be_val [of bs] by (simp add: Uint32_def)

subsection \<open>Reading from a connection\<close>

text \<open>
  The input side of an \<^verbatim>\<open>io.Reader\<close> is the list of bytes it will still deliver before
  it ends (at EOF, on an error or at a deadline). \<^verbatim>\<open>io.ReadFull\<close> of \<open>n\<close> bytes
  returns them and the rest of the stream, or fails when fewer are left.
\<close>

definition ReadFull :: "nat \<Rightarrow> bytes \<Rightarrow> (bytes \<times> bytes) option" where
  "ReadFull n r = (if n \<le> length r then Some (take n r, drop n r) else None)"

lemma ReadFull_append [simp]: "length bs = n \<Longrightarrow> ReadFull n (bs @ r) = Some (bs, r)"
  by (simp add: ReadFull_def)

lemma ReadFull_SomeD:
  "ReadFull n r = Some (bs, r') \<Longrightarrow> length bs = n \<and> r = bs @ r'"
  by (auto simp: ReadFull_def split: if_splits)

lemma ReadFull_None_iff: "ReadFull n r = None \<longleftrightarrow> length r < n"
  by (auto simp: ReadFull_def)

subsection \<open>Lists\<close>

lemma map_eq_append_split:
  "map f xs = ys @ zs \<longleftrightarrow> (\<exists>us vs. xs = us @ vs \<and> ys = map f us \<and> zs = map f vs)"
  by (rule map_eq_append_conv)

lemma takeWhile_neq_append:
  "x \<notin> set xs \<Longrightarrow> takeWhile (\<lambda>y. y \<noteq> x) (xs @ x # ys) = xs"
  by (induction xs) auto

lemma dropWhile_neq_append:
  "x \<notin> set xs \<Longrightarrow> dropWhile (\<lambda>y. y \<noteq> x) (xs @ x # ys) = x # ys"
  by (induction xs) auto

end
