(* ===== verification/GoStd.thy ===== *)
theory GoStd
  imports Prelude
begin

text \<open>
  The functions of Go's \<^verbatim>\<open>strings\<close>, \<^verbatim>\<open>bytes\<close>, \<^verbatim>\<open>strconv\<close>,
  \<^verbatim>\<open>html\<close> and \<^verbatim>\<open>net/url\<close> packages that the gateway calls, on byte strings.
  \<^verbatim>\<open>unicode.IsSpace\<close> is modelled by the UTF-8 encodings of the white-space runes.
  A lead byte of such an encoding is never a continuation byte and every encoding is a
  valid rune, so scanning byte by byte finds exactly the runes Go's decoder finds, at the
  front as well as at the end of a string.
\<close>

subsection \<open>Searching and cutting\<close>

text \<open>\<^verbatim>\<open>IndexByte\<close> and \<^verbatim>\<open>LastIndexByte\<close>; \<^verbatim>\<open>-1\<close> is \<open>None\<close>.\<close>

definition IndexByte :: "string \<Rightarrow> char \<Rightarrow> nat option" where
  "IndexByte s c =
     (let n = length (takeWhile (\<lambda>x. x \<noteq> c) s) in if n < length s then Some n else None)"

definition LastIndexByte :: "string \<Rightarrow> char \<Rightarrow> nat option" where
  "LastIndexByte s c =
     (case IndexByte (rev s) c of None \<Rightarrow> None | Some k \<Rightarrow> Some (length s - 1 - k))"

lemma takeWhile_neq_id: "x \<notin> set xs \<Longrightarrow> takeWhile (\<lambda>y. y \<noteq> x) xs = xs"
  by (induction xs) auto

lemma IndexByte_append [simp]: "c \<notin> set xs \<Longrightarrow> IndexByte (xs @ c # ys) c = Some (length xs)"
  by (simp add: IndexByte_def takeWhile_neq_append)

lemma IndexByte_None_iff: "IndexByte s c = None \<longleftrightarrow> c \<notin> set s"
proof (cases "c \<in> set s")
  case True
  then obtain xs ys where "s = xs @ c # ys" "c \<notin> set xs"
    by (meson split_list_first)
  then show ?thesis by simp
next
  case False
  then show ?thesis by (simp add: IndexByte_def takeWhile_neq_id)
qed

lemma IndexByte_None [simp]: "c \<notin> set s \<Longrightarrow> IndexByte s c = None"
  by (simp add: IndexByte_None_iff)

lemma IndexByte_SomeE:
  assumes "IndexByte s c = Some i"
  obtains xs ys where "s = xs @ c # ys" "c \<notin> set xs" "i = length xs"
proof -
  have "c \<in> set s"
    using assms IndexByte_None_iff [of s c] by (metis option.distinct(1))
  then obtain xs ys where s: "s = xs @ c # ys" "c \<notin> set xs"
    by (meson split_list_first)
  then have "i = length xs"
    using assms by simp
  with s show thesis by (rule that)
qed

lemma IndexByte_less: "IndexByte s c = Some i \<Longrightarrow> i < length s"
  by (erule IndexByte_SomeE) simp

lemma LastIndexByte_append [simp]:
  "c \<notin> set ys \<Longrightarrow> LastIndexByte (xs @ c # ys) c = Some (length xs)"
  using IndexByte_append [of c "rev ys" "rev xs"] by (simp add: LastIndexByte_def)

lemma LastIndexByte_None_iff: "LastIndexByte s c = None \<longleftrightarrow> c \<notin> set s"
proof (cases "c \<in> set s")
  case True
  then obtain xs ys where "s = xs @ c # ys" "c \<notin> set ys"
    by (meson split_list_last)
  then show ?thesis by simp
next
  case False
  then show ?thesis by (simp add: LastIndexByte_def)
qed

lemma LastIndexByte_None [simp]: "c \<notin> set s \<Longrightarrow> LastIndexByte s c = None"
  by (simp add: LastIndexByte_None_iff)

definition HasSuffix :: "string \<Rightarrow> string \<Rightarrow> bool" where
  "HasSuffix s suf = (length suf \<le> length s \<and> drop (length s - length suf) s = suf)"

definition TrimSuffix :: "string \<Rightarrow> string \<Rightarrow> string" where
  "TrimSuffix s suf = (if HasSuffix s suf then take (length s - length suf) s else s)"

lemma HasSuffix_append [simp]: "HasSuffix (xs @ suf) suf"
  by (simp add: HasSuffix_def)

lemma HasSuffix_iff: "HasSuffix s suf \<longleftrightarrow> (\<exists>xs. s = xs @ suf)"
  by (metis HasSuffix_append HasSuffix_def append_take_drop_id)

text \<open>\<^verbatim>\<open>strings.Trim(s, cutset)\<close> for a cutset of ASCII characters.\<close>

definition Trim :: "string \<Rightarrow> string \<Rightarrow> string" where
  "Trim s cs = rev (dropWhile (\<lambda>c. c \<in> set cs) (rev (dropWhile (\<lambda>c. c \<in> set cs) s)))"

text \<open>\<^verbatim>\<open>strings.Split(s, sep)\<close> for a separator of one byte, and \<^verbatim>\<open>strings.Join\<close>.\<close>

fun Split :: "char \<Rightarrow> string \<Rightarrow> string list" where
  "Split sep [] = [[]]"
| "Split sep (c # s) =
     (if c = sep then [] # Split sep s
      else case Split sep s of [] \<Rightarrow> [[c]] | w # ws \<Rightarrow> (c # w) # ws)"

fun Join :: "string \<Rightarrow> string list \<Rightarrow> string" where
  "Join sep [] = []"
| "Join sep [w] = w"
| "Join sep (w # ws) = w @ sep @ Join sep ws"

lemma Split_not_Nil [simp]: "Split sep s \<noteq> []"
  by (cases s) (auto split: list.splits)

lemma Split_word: "sep \<notin> set w \<Longrightarrow> Split sep w = [w]"
  by (induction w) auto

lemma Split_append: "sep \<notin> set w \<Longrightarrow> Split sep (w @ sep # s) = w # Split sep s"
  by (induction w) auto

lemma Split_Join:
  "ws \<noteq> [] \<Longrightarrow> (\<And>w. w \<in> set ws \<Longrightarrow> sep \<notin> set w) \<Longrightarrow> Split sep (Join [sep] ws) = ws"
  by (induction "[sep]" ws rule: Join.induct) (auto simp: Split_word Split_append)

subsection \<open>White space\<close>

definition space_runes :: "string list" where
  "space_runes =
     [[CHR 0x09], [CHR 0x0A], [CHR 0x0B], [CHR 0x0C], [CHR 0x0D], [CHR 0x20],
      [CHR 0xC2, CHR 0x85], [CHR 0xC2, CHR 0xA0], [CHR 0xE1, CHR 0x9A, CHR 0x80],
      [CHR 0xE2, CHR 0x80, CHR 0x80], [CHR 0xE2, CHR 0x80, CHR 0x81],
      [CHR 0xE2, CHR 0x80, CHR 0x82], [CHR 0xE2, CHR 0x80, CHR 0x83],
      [CHR 0xE2, CHR 0x80, CHR 0x84], [CHR 0xE2, CHR 0x80, CHR 0x85],
      [CHR 0xE2, CHR 0x80, CHR 0x86], [CHR 0xE2, CHR 0x80, CHR 0x87],
      [CHR 0xE2, CHR 0x80, CHR 0x88], [CHR 0xE2, CHR 0x80, CHR 0x89],
      [CHR 0xE2, CHR 0x80, CHR 0x8A], [CHR 0xE2, CHR 0x80, CHR 0xA8],
      [CHR 0xE2, CHR 0x80, CHR 0xA9], [CHR 0xE2, CHR 0x80, CHR 0xAF],
      [CHR 0xE2, CHR 0x81, CHR 0x9F], [CHR 0xE3, CHR 0x80, CHR 0x80]]"

text \<open>The length of the white-space rune at the front (at the end) of a string, 0 if none.\<close>

definition space_front :: "string \<Rightarrow> nat" where
  "space_front s = (case find (\<lambda>w. take (length w) s = w) space_runes of
     None \<Rightarrow> 0 | Some w \<Rightarrow> length w)"

definition space_end :: "string \<Rightarrow> nat" where
  "space_end s = (case find (\<lambda>w. HasSuffix s w) space_runes of
     None \<Rightarrow> 0 | Some w \<Rightarrow> length w)"

lemma space_front_Nil [simp]: "space_front [] = 0"
  by (simp add: space_front_def space_runes_def)

lemma space_end_Nil [simp]: "space_end [] = 0"
  by (simp add: space_end_def space_runes_def HasSuffix_def)

lemma find_SomeD: "find P xs = Some x \<Longrightarrow> x \<in> set xs \<and> P x"
  by (induction xs) (auto split: if_splits)

lemma space_runes_nonempty: "w \<in> set space_runes \<Longrightarrow> w \<noteq> []"
  by (auto simp: space_runes_def)

lemma space_front_rune:
  "space_front s \<noteq> 0 \<Longrightarrow>
     \<exists>w. w \<in> set space_runes \<and> take (length w) s = w \<and> space_front s = length w"
  by (auto simp: space_front_def dest: find_SomeD split: option.splits)

lemma space_end_rune:
  "space_end s \<noteq> 0 \<Longrightarrow> \<exists>w. w \<in> set space_runes \<and> HasSuffix s w \<and> space_end s = length w"
  by (auto simp: space_end_def dest: find_SomeD split: option.splits)

lemma space_front_0_iff:
  "space_front s = 0 \<longleftrightarrow> (\<forall>w \<in> set space_runes. take (length w) s \<noteq> w)"
  by (auto simp: space_front_def find_None_iff dest: find_SomeD space_runes_nonempty
      split: option.splits)

lemma printable_no_rune:
  assumes "32 < (of_char c :: nat)" "of_char c < (127 :: nat)" "w \<in> set space_runes"
  shows "hd w \<noteq> c" "last w \<noteq> c"
  using assms by (auto simp: space_runes_def)

lemma space_front_printable:
  assumes "32 < (of_char c :: nat)" "of_char c < (127 :: nat)"
  shows "space_front (c # s) = 0"
proof -
  have "take (length w) (c # s) \<noteq> w" if "w \<in> set space_runes" for w
  proof
    assume "take (length w) (c # s) = w"
    moreover have "w \<noteq> []" using that by (auto simp: space_runes_def)
    ultimately have "hd w = c" by (metis hd_take length_greater_0_conv list.sel(1))
    with printable_no_rune(1) [OF assms that] show False by simp
  qed
  then have "find (\<lambda>w. take (length w) (c # s) = w) space_runes = None"
    by (auto simp: find_None_iff)
  then show ?thesis by (simp add: space_front_def)
qed

lemma space_end_printable:
  assumes "32 < (of_char c :: nat)" "of_char c < (127 :: nat)"
  shows "space_end (s @ [c]) = 0"
proof -
  have "\<not> HasSuffix (s @ [c]) w" if "w \<in> set space_runes" for w
  proof
    assume "HasSuffix (s @ [c]) w"
    then obtain xs where "s @ [c] = xs @ w" by (auto simp: HasSuffix_iff)
    moreover have "w \<noteq> []" using that by (auto simp: space_runes_def)
    ultimately have "last w = c" by (metis last_appendR last_snoc)
    with printable_no_rune(2) [OF assms that] show False by simp
  qed
  then have "find (\<lambda>w. HasSuffix (s @ [c]) w) space_runes = None"
    by (auto simp: find_None_iff)
  then show ?thesis by (simp add: space_end_def)
qed

function TrimLeftSpace :: "string \<Rightarrow> string" where
  "TrimLeftSpace s = (if space_front s = 0 then s else TrimLeftSpace (drop (space_front s) s))"
  by pat_completeness auto
termination
proof (relation "measure length", goal_cases)
  case (2 s)
  then show ?case by (cases s) auto
qed simp

function TrimRightSpace :: "string \<Rightarrow> string" where
  "TrimRightSpace s =
     (if space_end s = 0 then s else TrimRightSpace (take (length s - space_end s) s))"
  by pat_completeness auto
termination
proof (relation "measure length", goal_cases)
  case (2 s)
  then show ?case by (cases s) auto
qed simp

declare TrimLeftSpace.simps [simp del] TrimRightSpace.simps [simp del]

definition TrimSpace :: "string \<Rightarrow> string" where
  "TrimSpace s = TrimRightSpace (TrimLeftSpace s)"

lemma TrimLeftSpace_Nil [simp]: "TrimLeftSpace [] = []"
  by (simp add: TrimLeftSpace.simps)

lemma TrimRightSpace_Nil [simp]: "TrimRightSpace [] = []"
  by (simp add: TrimRightSpace.simps)

lemma TrimSpace_Nil [simp]: "TrimSpace [] = []"
  by (simp add: TrimSpace_def)

lemma TrimRightSpace_end: "space_end (TrimRightSpace s) = 0"
proof (induction s rule: TrimRightSpace.induct)
  case (1 s)
  then show ?case by (cases "space_end s = 0") (simp_all add: TrimRightSpace.simps [of s])
qed

lemma TrimSpace_end: "space_end (TrimSpace s) = 0"
  by (simp add: TrimSpace_def TrimRightSpace_end)

lemma TrimSpace_fixed: "space_front s = 0 \<Longrightarrow> space_end s = 0 \<Longrightarrow> TrimSpace s = s"
  by (simp add: TrimSpace_def TrimLeftSpace.simps [of s] TrimRightSpace.simps [of s])

lemma space_front_prefix: "space_front (s @ t) = 0 \<Longrightarrow> space_front s = 0"
proof -
  have "take (length w) (s @ t) = w" if "take (length w) s = w" for w
  proof -
    have "length w \<le> length s" using that by (metis length_take min.cobounded1)
    with that show ?thesis by simp
  qed
  then show "space_front (s @ t) = 0 \<Longrightarrow> space_front s = 0"
    unfolding space_front_0_iff by blast
qed

lemma TrimLeftSpace_front: "space_front (TrimLeftSpace s) = 0"
proof (induction s rule: TrimLeftSpace.induct)
  case (1 s)
  then show ?case by (cases "space_front s = 0") (simp_all add: TrimLeftSpace.simps [of s])
qed

lemma TrimRightSpace_prefix: "\<exists>t. s = TrimRightSpace s @ t"
proof (induction s rule: TrimRightSpace.induct)
  case (1 s)
  show ?case
  proof (cases "space_end s = 0")
    case False
    from "1.IH" [OF False] obtain t where
      "take (length s - space_end s) s = TrimRightSpace (take (length s - space_end s) s) @ t" by blast
    then have "s = TrimRightSpace (take (length s - space_end s) s) @ t @ drop (length s - space_end s) s"
      by (metis append.assoc append_take_drop_id)
    moreover have "TrimRightSpace s = TrimRightSpace (take (length s - space_end s) s)"
      using False by (simp add: TrimRightSpace.simps [of s])
    ultimately show ?thesis by metis
  qed (simp add: TrimRightSpace.simps [of s])
qed

lemma TrimSpace_front: "space_front (TrimSpace s) = 0"
  unfolding TrimSpace_def
  using TrimRightSpace_prefix [of "TrimLeftSpace s"] TrimLeftSpace_front [of s] space_front_prefix
  by metis

lemma TrimSpace_idem: "TrimSpace (TrimSpace s) = TrimSpace s"
  by (rule TrimSpace_fixed [OF TrimSpace_front TrimSpace_end])

function Fields_from :: "string \<Rightarrow> string \<Rightarrow> string list" where
  "Fields_from cur s =
     (if s = [] then (if cur = [] then [] else [cur])
      else if space_front s = 0 then Fields_from (cur @ [hd s]) (tl s)
      else (if cur = [] then [] else [cur]) @ Fields_from [] (drop (space_front s) s))"
  by pat_completeness auto
termination
  by (relation "measure (\<lambda>(cur, s). length s)") auto

declare Fields_from.simps [simp del]

text \<open>\<^verbatim>\<open>strings.Fields\<close>: the words between runs of white space.\<close>

definition Fields :: "string \<Rightarrow> string list" where
  "Fields s = Fields_from [] s"

lemma Fields_from_nonempty: "w \<in> set (Fields_from cur s) \<Longrightarrow> w \<noteq> []"
proof (induction cur s rule: Fields_from.induct)
  case (1 cur s)
  then show ?case
    by (auto simp: Fields_from.simps [of cur s] split: if_splits)
qed

lemma Fields_nonempty: "w \<in> set (Fields s) \<Longrightarrow> w \<noteq> []"
  by (simp add: Fields_def Fields_from_nonempty)

subsection \<open>Case\<close>

text \<open>
  \<^verbatim>\<open>strings.ToLower\<close>: bytewise on ASCII strings. On a string with a byte above 127
  Go maps every rune through the Unicode tables; that map is the parameter \<open>ul\<close>.
\<close>

definition lower_byte :: "char \<Rightarrow> char" where
  "lower_byte c = (if 65 \<le> (of_char c :: nat) \<and> of_char c \<le> (90 :: nat)
                   then byte_of (of_char c + 32) else c)"

definition is_ascii :: "string \<Rightarrow> bool" where
  "is_ascii s = list_all (\<lambda>c. of_char c < (128 :: nat)) s"

definition ToLower :: "(string \<Rightarrow> string) \<Rightarrow> string \<Rightarrow> string" where
  "ToLower ul s = (if is_ascii s then map lower_byte s else ul s)"

lemma ToLower_Nil [simp]: "ToLower ul [] = []"
  by (simp add: ToLower_def is_ascii_def)

lemma of_char_lower_byte:
  "(of_char (lower_byte c) :: nat) =
     (if 65 \<le> (of_char c :: nat) \<and> of_char c \<le> (90 :: nat) then of_char c + 32 else of_char c)"
  by (simp add: lower_byte_def)

lemma lower_byte_idem [simp]: "lower_byte (lower_byte c) = lower_byte c"
  unfolding lower_byte_def [of "lower_byte c"] by (auto simp: of_char_lower_byte)

lemma is_ascii_ToLower: "is_ascii s \<Longrightarrow> is_ascii (map lower_byte s)"
  by (auto simp: is_ascii_def list_all_iff of_char_lower_byte)

lemma ToLower_idem_ascii: "is_ascii s \<Longrightarrow> ToLower ul (ToLower ul s) = ToLower ul s"
  by (simp add: ToLower_def is_ascii_ToLower)

subsection \<open>Decimal numbers\<close>

definition digit :: "nat \<Rightarrow> char" where
  "digit d = byte_of (48 + d)"

fun itoa_nat :: "nat \<Rightarrow> string" where
  "itoa_nat n = (if n < 10 then [digit n] else itoa_nat (n div 10) @ [digit (n mod 10)])"

declare itoa_nat.simps [simp del]

text \<open>\<^verbatim>\<open>strconv.Itoa\<close>, and \<^verbatim>\<open>strconv.Atoi\<close> on a 64-bit platform.\<close>

definition Itoa :: "int \<Rightarrow> string" where
  "Itoa i = (if i < 0 then CHR ''-'' # itoa_nat (nat (- i)) else itoa_nat (nat i))"

definition is_digit :: "char \<Rightarrow> bool" where
  "is_digit c = (48 \<le> (of_char c :: nat) \<and> of_char c \<le> (57 :: nat))"

definition digits_val :: "string \<Rightarrow> nat" where
  "digits_val s = foldl (\<lambda>acc c. acc * 10 + (of_char c - 48)) 0 s"

definition Atoi :: "string \<Rightarrow> int option" where
  "Atoi s =
     (let (neg, ds) = (case s of
            c # t \<Rightarrow> if c = CHR ''-'' then (True, t) else if c = CHR ''+'' then (False, t)
                    else (False, s)
          | [] \<Rightarrow> (False, s));
          v = (if neg then - int (digits_val ds) else int (digits_val ds))
      in if ds = [] \<or> \<not> list_all is_digit ds then None
         else if v < - (2 ^ 63) \<or> 2 ^ 63 \<le> v then None
         else Some v)"

lemma of_char_digit [simp]: "d < 10 \<Longrightarrow> (of_char (digit d) :: nat) = 48 + d"
  by (simp add: digit_def)

lemma itoa_nat_not_Nil [simp]: "itoa_nat n \<noteq> []"
  by (simp add: itoa_nat.simps [of n])

lemma digits_val_snoc: "digits_val (s @ [c]) = digits_val s * 10 + (of_char c - 48)"
  by (simp add: digits_val_def)

lemma digits_val_itoa_nat [simp]: "digits_val (itoa_nat n) = n"
proof (induction n rule: itoa_nat.induct)
  case (1 n)
  then show ?case
    by (cases "n < 10") (simp_all add: itoa_nat.simps [of n] digits_val_snoc,
        simp add: digits_val_def)
qed

lemma itoa_nat_digits: "list_all is_digit (itoa_nat n)"
proof (induction n rule: itoa_nat.induct)
  case (1 n)
  then show ?case
    by (cases "n < 10") (simp_all add: itoa_nat.simps [of n] is_digit_def)
qed

lemma itoa_nat_hd: "hd (itoa_nat n) \<noteq> CHR ''-''" "hd (itoa_nat n) \<noteq> CHR ''+''"
proof -
  have "is_digit (hd (itoa_nat n))"
    using itoa_nat_digits [of n] by (cases "itoa_nat n") auto
  then show "hd (itoa_nat n) \<noteq> CHR ''-''" "hd (itoa_nat n) \<noteq> CHR ''+''"
    by (auto simp: is_digit_def)
qed

lemma Atoi_itoa_nat: "int n < 2 ^ 63 \<Longrightarrow> Atoi (itoa_nat n) = Some (int n)"
  using itoa_nat_hd [of n] itoa_nat_digits [of n] itoa_nat_not_Nil [of n]
    digits_val_itoa_nat [of n]
  by (cases "itoa_nat n") (auto simp: Atoi_def)

subsection \<open>Escaping\<close>

text \<open>\<^verbatim>\<open>html.EscapeString\<close>.\<close>

definition html_escape_byte :: "char \<Rightarrow> string" where
  "html_escape_byte c =
     (if c = CHR 0x26 then ''&amp;''
      else if c = CHR 0x27 then ''&#39;''
      else if c = CHR 0x3C then ''&lt;''
      else if c = CHR 0x3E then ''&gt;''
      else if c = CHR 0x22 then ''&#34;''
      else [c])"

definition EscapeString :: "string \<Rightarrow> string" where
  "EscapeString s = concat (map html_escape_byte s)"

lemma EscapeString_safe:
  "CHR 0x3C \<notin> set (EscapeString s)" "CHR 0x3E \<notin> set (EscapeString s)"
  "CHR 0x22 \<notin> set (EscapeString s)" "CHR 0x27 \<notin> set (EscapeString s)"
  by (auto simp: EscapeString_def html_escape_byte_def split: if_splits)

text \<open>\<^verbatim>\<open>url.QueryEscape\<close>.\<close>

definition hex_digit :: "nat \<Rightarrow> char" where
  "hex_digit d = (if d < 10 then byte_of (48 + d) else byte_of (55 + d))"

definition query_unreserved :: "char \<Rightarrow> bool" where
  "query_unreserved c =
     (let n = (of_char c :: nat) in
      (48 \<le> n \<and> n \<le> 57) \<or> (65 \<le> n \<and> n \<le> 90) \<or> (97 \<le> n \<and> n \<le> 122)
      \<or> c \<in> set ''-_.~'')"

definition QueryEscape :: "string \<Rightarrow> string" where
  "QueryEscape s = concat (map (\<lambda>c.
     if query_unreserved c then [c]
     else if c = CHR 0x20 then ''+''
     else [CHR 0x25, hex_digit (of_char c div 16), hex_digit (of_char c mod 16)]) s)"

end
