(* ===== verification/GoNet.thy ===== *)
theory GoNet
  imports GoStd
begin

text \<open>
  The parts of Go's \<^verbatim>\<open>net\<close> and \<^verbatim>\<open>net/netip\<close> packages the gateway's
  decisions rest on: \<^verbatim>\<open>SplitHostPort\<close>, \<^verbatim>\<open>JoinHostPort\<close>, the parser of
  textual IP addresses, and CIDR prefixes. An IPv4 address is a 32-bit word, an IPv6
  address a 128-bit word with its zone (empty for none).
\<close>

unbundle bit_operations_syntax

subsection \<open>host:port\<close>

datatype addr_error =
  MissingPort | TooManyColons | MissingCloseBracket | UnexpectedOpen | UnexpectedClose

definition split_finish :: "string \<Rightarrow> string \<Rightarrow> nat \<Rightarrow> nat \<Rightarrow> nat \<Rightarrow> addr_error + string \<times> string" where
  "split_finish hp host i j k =
     (if CHR ''['' \<in> set (drop j hp) then Inl UnexpectedOpen
      else if CHR '']'' \<in> set (drop k hp) then Inl UnexpectedClose
      else Inr (host, drop (i + 1) hp))"

definition SplitHostPort :: "string \<Rightarrow> addr_error + string \<times> string" where
  "SplitHostPort hp =
     (case LastIndexByte hp (CHR '':'') of
        None \<Rightarrow> Inl MissingPort
      | Some i \<Rightarrow>
          if hd hp = CHR ''['' then
            (case IndexByte hp (CHR '']'') of
               None \<Rightarrow> Inl MissingCloseBracket
             | Some e \<Rightarrow>
                 if e + 1 = length hp then Inl MissingPort
                 else if e + 1 = i then split_finish hp (take (e - 1) (drop 1 hp)) i 1 (e + 1)
                 else if hp ! (e + 1) = CHR '':'' then Inl TooManyColons
                 else Inl MissingPort)
          else if CHR '':'' \<in> set (take i hp) then Inl TooManyColons
          else split_finish hp (take i hp) i 0 0)"

definition JoinHostPort :: "string \<Rightarrow> string \<Rightarrow> string" where
  "JoinHostPort host port =
     (if CHR '':'' \<in> set host then ''['' @ host @ '']:'' @ port else host @ '':'' @ port)"

text \<open>A host and a port that survive joining and splitting.\<close>

definition plain_host :: "string \<Rightarrow> bool" where
  "plain_host h = (CHR ''['' \<notin> set h \<and> CHR '']'' \<notin> set h)"

lemma SplitHostPort_Join:
  assumes "plain_host h" "plain_host p" "CHR '':'' \<notin> set p"
  shows "SplitHostPort (JoinHostPort h p) = Inr (h, p)"
proof (cases "CHR '':'' \<in> set h")
  case True
  let ?hp = "''['' @ h @ '']:'' @ p"
  have last: "LastIndexByte ?hp (CHR '':'') = Some (length h + 2)"
    using LastIndexByte_append [OF assms(3), of "''['' @ h @ '']''"] by simp
  have idx: "IndexByte ?hp (CHR '']'') = Some (length h + 1)"
    using IndexByte_append [of "CHR '']''" "''['' @ h" "'':'' @ p"] assms(1)
    by (simp add: plain_host_def)
  from True assms show ?thesis
    by (simp add: SplitHostPort_def JoinHostPort_def last [simplified] idx [simplified]
        split_finish_def plain_host_def)
next
  case False
  let ?hp = "h @ '':'' @ p"
  have last: "LastIndexByte ?hp (CHR '':'') = Some (length h)"
    using LastIndexByte_append [OF assms(3), of h] by simp
  have hd: "hd ?hp \<noteq> CHR ''[''"
    using assms(1) by (cases h) (auto simp: plain_host_def)
  from False assms hd show ?thesis
    by (simp add: SplitHostPort_def JoinHostPort_def last [simplified]
        split_finish_def plain_host_def)
qed

subsection \<open>Addresses\<close>

datatype netip_addr = AddrZero | Addr4 "32 word" | Addr6 "128 word" string

text \<open>\<^verbatim>\<open>parseIPv4Fields\<close>: \<open>fs\<close> the finished fields, \<open>v\<close> and \<open>dl\<close> the value and the
  number of digits of the current one.\<close>

fun ipv4_fields :: "nat list \<Rightarrow> nat \<Rightarrow> nat \<Rightarrow> string \<Rightarrow> nat list option" where
  "ipv4_fields fs v dl [] = (if length fs < 3 then None else Some (fs @ [v]))"
| "ipv4_fields fs v dl (c # s) =
     (if is_digit c then
        (if dl = 1 \<and> v = 0 then None
         else if v * 10 + (of_char c - 48) > 255 then None
         else ipv4_fields fs (v * 10 + (of_char c - 48)) (dl + 1) s)
      else if c = CHR ''.'' then
        (if s = [] \<or> dl = 0 then None
         else if length fs = 3 then None
         else ipv4_fields (fs @ [v]) 0 0 s)
      else None)"

definition hex_val :: "char \<Rightarrow> nat option" where
  "hex_val c =
     (let n = (of_char c :: nat) in
      if 48 \<le> n \<and> n \<le> 57 then Some (n - 48)
      else if 97 \<le> n \<and> n \<le> 102 then Some (n - 87)
      else if 65 \<le> n \<and> n \<le> 70 then Some (n - 55)
      else None)"

fun hex_group :: "nat \<Rightarrow> nat \<Rightarrow> string \<Rightarrow> (nat \<times> nat \<times> string) option" where
  "hex_group off acc [] = Some (off, acc, [])"
| "hex_group off acc (c # s) =
     (case hex_val c of
        None \<Rightarrow> Some (off, acc, c # s)
      | Some d \<Rightarrow>
          if off > 3 then None
          else if acc * 16 + d > 65535 then None
          else hex_group (off + 1) (acc * 16 + d) s)"

text \<open>The loop of \<^verbatim>\<open>parseIPv6\<close>: \<open>ip\<close> the bytes written so far, \<open>ell\<close> the position of
  the ellipsis, and the rest of the text.\<close>

function ipv6_loop :: "nat list \<Rightarrow> nat option \<Rightarrow> string \<Rightarrow> (nat list \<times> nat option \<times> string) option" where
  "ipv6_loop ip ell s =
     (if 16 \<le> length ip then Some (ip, ell, s)
      else case hex_group 0 0 s of
        None \<Rightarrow> None
      | Some (off, acc, r) \<Rightarrow>
          if off = 0 then None
          else if r \<noteq> [] \<and> hd r = CHR ''.'' then
            (if ell = None \<and> length ip \<noteq> 12 then None
             else if length ip + 4 > 16 then None
             else case ipv4_fields [] 0 0 s of
               None \<Rightarrow> None
             | Some fs \<Rightarrow> Some (ip @ fs, ell, []))
          else if r = [] then Some (ip @ [acc div 256, acc mod 256], ell, [])
          else if hd r \<noteq> CHR '':'' then None
          else if tl r = [] then None
          else if hd (tl r) = CHR '':'' then
            (if ell \<noteq> None then None
             else if tl (tl r) = [] then
               Some (ip @ [acc div 256, acc mod 256], Some (length ip + 2), [])
             else ipv6_loop (ip @ [acc div 256, acc mod 256]) (Some (length ip + 2)) (tl (tl r)))
          else ipv6_loop (ip @ [acc div 256, acc mod 256]) ell (tl r))"
  by pat_completeness auto
termination
  by (relation "measure (\<lambda>(ip, ell, s). 16 - length ip)") auto

declare ipv6_loop.simps [simp del]

definition int_of_bytes :: "nat list \<Rightarrow> int" where
  "int_of_bytes ns = foldl (\<lambda>acc b. acc * 256 + int b) 0 ns"

definition ipv6_finish :: "nat list \<times> nat option \<times> string \<Rightarrow> nat list option" where
  "ipv6_finish r =
     (case r of (ip, ell, s) \<Rightarrow>
        if s \<noteq> [] then None
        else if length ip < 16 then
          (case ell of
             None \<Rightarrow> None
           | Some e \<Rightarrow> Some (take e ip @ replicate (16 - length ip) 0 @ drop e ip))
        else if ell \<noteq> None then None
        else Some ip)"

definition parseIPv6_body :: "string \<Rightarrow> nat list option" where
  "parseIPv6_body s =
     (if take 2 s = ''::'' then
        (if drop 2 s = [] then Some (replicate 16 0)
         else Option.bind (ipv6_loop [] (Some 0) (drop 2 s)) ipv6_finish)
      else Option.bind (ipv6_loop [] None s) ipv6_finish)"

definition parseIPv6 :: "string \<Rightarrow> netip_addr option" where
  "parseIPv6 s =
     (case IndexByte s (CHR ''%'') of
        None \<Rightarrow> map_option (\<lambda>ns. Addr6 (word_of_int (int_of_bytes ns)) []) (parseIPv6_body s)
      | Some i \<Rightarrow>
          if drop (i + 1) s = [] then None
          else map_option (\<lambda>ns. Addr6 (word_of_int (int_of_bytes ns)) (drop (i + 1) s))
                 (parseIPv6_body (take i s)))"

definition parseIPv4 :: "string \<Rightarrow> netip_addr option" where
  "parseIPv4 s =
     map_option (\<lambda>ns. Addr4 (word_of_int (int_of_bytes ns))) (ipv4_fields [] 0 0 s)"

definition ParseAddr :: "string \<Rightarrow> netip_addr option" where
  "ParseAddr s =
     (case find (\<lambda>c. c \<in> set ''.:%'') s of
        None \<Rightarrow> None
      | Some c \<Rightarrow> if c = CHR ''.'' then parseIPv4 s
                  else if c = CHR '':'' then parseIPv6 s
                  else None)"

fun Is4 :: "netip_addr \<Rightarrow> bool" where
  "Is4 (Addr4 w) = True"
| "Is4 _ = False"

text \<open>\<^verbatim>\<open>Unmap\<close> turns an IPv4-mapped IPv6 address into the IPv4 one, dropping the zone.\<close>

fun Unmap :: "netip_addr \<Rightarrow> netip_addr" where
  "Unmap (Addr6 a z) = (if drop_bit 32 a = 0xffff then Addr4 (ucast a) else Addr6 a z)"
| "Unmap ip = ip"

fun AsSlice :: "netip_addr \<Rightarrow> bytes" where
  "AsSlice AddrZero = []"
| "AsSlice (Addr4 w) = be_put 4 (unat w)"
| "AsSlice (Addr6 w z) = be_put 16 (unat w)"

definition AddrFromSlice :: "bytes \<Rightarrow> netip_addr option" where
  "AddrFromSlice bs =
     (if length bs = 4 then Some (Addr4 (word_of_nat (be_val bs)))
      else if length bs = 16 then Some (Addr6 (word_of_nat (be_val bs)) [])
      else None)"

fun zoneless :: "netip_addr \<Rightarrow> bool" where
  "zoneless (Addr6 w z) = (z = [])"
| "zoneless _ = True"

lemma AddrFromSlice_AsSlice:
  "zoneless a \<Longrightarrow> a \<noteq> AddrZero \<Longrightarrow> AddrFromSlice (AsSlice a) = Some a"
proof (cases a)
  case (Addr4 w)
  have "unat w < 256 ^ 4" using unsigned_less [of w] by simp
  with Addr4 show ?thesis by (simp add: AddrFromSlice_def be_val_be_put_id)
next
  case (Addr6 w z)
  assume "zoneless a"
  have "unat w < 256 ^ 16" using unsigned_less [of w] by simp
  with Addr6 \<open>zoneless a\<close> show ?thesis by (simp add: AddrFromSlice_def be_val_be_put_id)
qed simp

subsection \<open>Prefixes\<close>

datatype prefix = Prefix netip_addr nat

definition mask6 :: "nat \<Rightarrow> 128 word" where
  "mask6 n = NOT (mask (128 - n))"

fun Contains :: "prefix \<Rightarrow> netip_addr \<Rightarrow> bool" where
  "Contains (Prefix (Addr4 p) n) (Addr4 a) = (drop_bit (32 - n) (a XOR p) = 0)"
| "Contains (Prefix (Addr6 p _) n) (Addr6 a z) = (z = [] \<and> (a XOR p) AND mask6 n = 0)"
| "Contains _ _ = False"

definition MustParsePrefix :: "string \<Rightarrow> nat \<Rightarrow> prefix" where
  "MustParsePrefix s n = Prefix (case ParseAddr s of None \<Rightarrow> AddrZero | Some a \<Rightarrow> a) n"

lemma and_not_mask_eq_0_iff:
  fixes x :: "'a::len word"
  shows "x AND NOT (mask n) = 0 \<longleftrightarrow> drop_bit n x = 0"
proof -
  have "x AND NOT (mask n) = 0 \<longleftrightarrow> (\<forall>m < LENGTH('a). bit x m \<longrightarrow> m < n)"
    by (auto simp: bit_eq_iff bit_simps)
  moreover have "drop_bit n x = 0 \<longleftrightarrow> (\<forall>m. \<not> bit x (n + m))"
    by (simp add: bit_eq_iff bit_simps) (metis bit_imp_le_length le_add2 linorder_not_le order_le_less_trans)
  moreover have "(\<forall>m. \<not> bit x (n + m)) \<longleftrightarrow> (\<forall>m < LENGTH('a). bit x m \<longrightarrow> m < n)"
    by (metis bit_imp_le_length le_add1 le_add_diff_inverse linorder_not_le)
  ultimately show ?thesis by simp
qed

lemma xor_eq_0_iff_word:
  fixes a p :: "'a::len word"
  shows "a XOR p = 0 \<longleftrightarrow> a = p"
  by (auto simp: bit_eq_iff bit_simps)

lemma drop_bit_xor_eq_0_iff:
  fixes a p :: "'a::len word"
  shows "drop_bit n (a XOR p) = 0 \<longleftrightarrow> drop_bit n a = drop_bit n p"
  by (simp add: drop_bit_xor xor_eq_0_iff_word)

lemma Contains_Addr6:
  "Contains (Prefix (Addr6 p z') n) (Addr6 a z) \<longleftrightarrow>
     z = [] \<and> drop_bit (128 - n) a = drop_bit (128 - n) p"
  by (simp add: mask6_def and_not_mask_eq_0_iff drop_bit_xor_eq_0_iff
      del: drop_bit_xor)

lemma Contains_Addr4:
  "Contains (Prefix (Addr4 p) n) (Addr4 a) \<longleftrightarrow> drop_bit (32 - n) a = drop_bit (32 - n) p"
  by (simp add: drop_bit_xor_eq_0_iff del: drop_bit_xor)

end
