(* ===== verification/Peer.thy ===== *)
theory Peer
  imports GoNet
begin

text \<open>
  Process settings and source gating (\<^verbatim>\<open>src/fly.go\<close>, \<^verbatim>\<open>src/dns.go\<close>,
  \<^verbatim>\<open>src/pgproxy.go\<close>, \<^verbatim>\<open>src/httpproxy.go\<close>): the flags of the binary, the
  three trusted address ranges, \<open>classifyPeer\<close>, and the admission rule of the CONNECT proxy.
  The locale \<open>source_gate\<close> is the contract a listener relies on when it gates its
  clients by \<open>classifyPeer\<close>.
\<close>

text \<open>
  The command-line flags, with the environment variable \<^verbatim>\<open>FLY_APP_NAME\<close>. They are set
  once, before any listener runs. \<open>debugPort\<close> is a Go \<^verbatim>\<open>int\<close>.
\<close>

record flags =
  destinationPgDbs :: string
  destinationTCPTargets :: string
  flyListenHost :: string
  httpProxyListen :: string
  tailscaleEnabled :: bool
  httpProxyAllowTailscale :: bool
  debugPort :: int
  upstreamCA :: string
  dnsResolver :: string
  aliasDomainFlag :: string
  internalDomainFlag :: string
  FLY_APP_NAME :: string

definition onFly :: "flags \<Rightarrow> bool" where
  "onFly fl = (FLY_APP_NAME fl \<noteq> [])"

definition flyPrefix :: prefix where
  "flyPrefix = MustParsePrefix ''fdaa::'' 16"

definition tailscaleV4 :: prefix where
  "tailscaleV4 = MustParsePrefix ''100.64.0.0'' 10"

definition tailscaleV6 :: prefix where
  "tailscaleV6 = MustParsePrefix ''fd7a:115c:a1e0::'' 48"

datatype peerKind = peerReject | peerFly | peerTailscale

fun peerKind_String :: "peerKind \<Rightarrow> string" where
  "peerKind_String peerFly = ''fly''"
| "peerKind_String peerTailscale = ''tailscale''"
| "peerKind_String peerReject = ''reject''"

definition classifyPeer :: "flags \<Rightarrow> string \<Rightarrow> peerKind" where
  "classifyPeer fl remote =
     (case SplitHostPort remote of
        Inl e \<Rightarrow> peerReject
      | Inr (host, port) \<Rightarrow>
          (case ParseAddr host of
             None \<Rightarrow> peerReject
           | Some ip0 \<Rightarrow>
               let ip = Unmap ip0 in
               if onFly fl \<and> Contains flyPrefix ip then peerFly
               else if tailscaleEnabled fl \<and> (Contains tailscaleV4 ip \<or> Contains tailscaleV6 ip)
               then peerTailscale
               else peerReject))"

definition allowPeer :: "flags \<Rightarrow> peerKind \<Rightarrow> bool" where
  "allowPeer fl k =
     (case k of
        peerFly \<Rightarrow> True
      | peerTailscale \<Rightarrow> httpProxyAllowTailscale fl
      | peerReject \<Rightarrow> False)"

subsection \<open>The trusted ranges\<close>

lemma flyPrefix_eq: "flyPrefix = Prefix (Addr6 0xfdaa0000000000000000000000000000 []) 16"
  by code_simp

lemma tailscaleV4_eq: "tailscaleV4 = Prefix (Addr4 0x64400000) 10"
  by code_simp

lemma tailscaleV6_eq: "tailscaleV6 = Prefix (Addr6 0xfd7a115ca1e000000000000000000000 []) 48"
  by code_simp

text \<open>The address ranges as the comments of the source give them.\<close>

definition in_fly_6pn :: "netip_addr \<Rightarrow> bool" where
  "in_fly_6pn ip = (case ip of Addr6 a z \<Rightarrow> z = [] \<and> drop_bit 112 a = 0xfdaa | _ \<Rightarrow> False)"

definition in_tailnet :: "netip_addr \<Rightarrow> bool" where
  "in_tailnet ip =
     (case ip of
        Addr4 w \<Rightarrow> drop_bit 22 w = 401
      | Addr6 a z \<Rightarrow> z = [] \<and> drop_bit 80 a = 0xfd7a115ca1e0
      | AddrZero \<Rightarrow> False)"

lemma Contains_flyPrefix: "Contains flyPrefix ip \<longleftrightarrow> in_fly_6pn ip"
proof (cases ip)
  case (Addr6 a z)
  show ?thesis
    unfolding flyPrefix_eq Addr6 Contains_Addr6 by (simp add: in_fly_6pn_def)
qed (simp_all add: flyPrefix_eq in_fly_6pn_def)

lemma Contains_tailscale: "Contains tailscaleV4 ip \<or> Contains tailscaleV6 ip \<longleftrightarrow> in_tailnet ip"
proof (cases ip)
  case (Addr4 w)
  show ?thesis
    unfolding tailscaleV4_eq tailscaleV6_eq Addr4 Contains_Addr4 by (simp add: in_tailnet_def)
next
  case (Addr6 a z)
  show ?thesis
    unfolding tailscaleV4_eq tailscaleV6_eq Addr6 Contains_Addr6 by (simp add: in_tailnet_def)
qed (simp add: tailscaleV4_eq tailscaleV6_eq in_tailnet_def)

lemma ranges_disjoint: "in_fly_6pn ip \<Longrightarrow> \<not> in_tailnet ip"
proof (cases ip)
  case (Addr6 a z)
  assume "in_fly_6pn ip"
  with Addr6 have "drop_bit 112 a = 0xfdaa" by (simp add: in_fly_6pn_def)
  then have "drop_bit 32 (drop_bit 80 a) = 0xfdaa" by (simp add: drop_bit_drop_bit)
  moreover have "drop_bit 32 (0xfd7a115ca1e0 :: 128 word) \<noteq> 0xfdaa" by simp
  ultimately have "drop_bit 80 a \<noteq> 0xfd7a115ca1e0" by metis
  with Addr6 show ?thesis by (simp add: in_tailnet_def)
qed (simp_all add: in_fly_6pn_def)

subsection \<open>Classification\<close>

text \<open>The address a remote string names, as \<open>classifyPeer\<close> reads it.\<close>

definition remote_ip :: "string \<Rightarrow> netip_addr option" where
  "remote_ip remote =
     (case SplitHostPort remote of
        Inl e \<Rightarrow> None
      | Inr (host, port) \<Rightarrow> map_option Unmap (ParseAddr host))"

lemma classifyPeer_remote_ip:
  "classifyPeer fl remote =
     (case remote_ip remote of
        None \<Rightarrow> peerReject
      | Some ip \<Rightarrow>
          if onFly fl \<and> in_fly_6pn ip then peerFly
          else if tailscaleEnabled fl \<and> in_tailnet ip then peerTailscale
          else peerReject)"
  by (simp add: classifyPeer_def remote_ip_def Contains_flyPrefix Contains_tailscale Let_def
      split: sum.splits option.splits)

lemma classifyPeer_fly_iff:
  "classifyPeer fl remote = peerFly \<longleftrightarrow>
     onFly fl \<and> (\<exists>ip. remote_ip remote = Some ip \<and> in_fly_6pn ip)"
  by (auto simp: classifyPeer_remote_ip split: option.splits)

lemma classifyPeer_tailscale_iff:
  "classifyPeer fl remote = peerTailscale \<longleftrightarrow>
     tailscaleEnabled fl \<and> (\<exists>ip. remote_ip remote = Some ip \<and> in_tailnet ip)"
  using ranges_disjoint by (auto simp: classifyPeer_remote_ip split: option.splits)

text \<open>C1: the listeners trust exactly the documented sources: a remote address is admitted
  as Fly when the process runs on Fly and the address lies in \<open>fdaa::/16\<close>, as Tailscale when
  Tailscale is enabled and it lies in \<open>100.64.0.0/10\<close> or \<open>fd7a:115c:a1e0::/48\<close>, and every
  other string, malformed ones included, is rejected. The two ranges are disjoint, so the
  order of the cases does not matter.\<close>

theorem classifyPeer_exact:
  "classifyPeer fl remote =
     (case remote_ip remote of
        None \<Rightarrow> peerReject
      | Some ip \<Rightarrow>
          if tailscaleEnabled fl \<and> in_tailnet ip then peerTailscale
          else if onFly fl \<and> in_fly_6pn ip then peerFly
          else peerReject)
   \<and> \<not> (\<exists>ip. in_fly_6pn ip \<and> in_tailnet ip)"
  using ranges_disjoint by (auto simp: classifyPeer_remote_ip split: option.splits)

subsection \<open>The contract of a gated listener\<close>

text \<open>
  A listener decides by the class of its peer. Whatever the rule, it must turn down
  rejected peers; then everyone it serves comes from a trusted range.
\<close>

locale source_gate =
  fixes admits :: "flags \<Rightarrow> peerKind \<Rightarrow> bool"
  assumes rejects: "\<not> admits fl peerReject"
begin

lemma admitted_trusted:
  assumes "admits fl (classifyPeer fl remote)"
  shows "\<exists>ip. remote_ip remote = Some ip \<and>
    (onFly fl \<and> in_fly_6pn ip \<or> tailscaleEnabled fl \<and> in_tailnet ip)"
proof (cases "classifyPeer fl remote")
  case peerReject
  with assms rejects show ?thesis by simp
next
  case peerFly
  then show ?thesis unfolding classifyPeer_fly_iff by blast
next
  case peerTailscale
  then show ?thesis unfolding classifyPeer_tailscale_iff by blast
qed

lemma closed_by_default:
  "\<not> onFly fl \<Longrightarrow> \<not> tailscaleEnabled fl \<Longrightarrow> \<not> admits fl (classifyPeer fl remote)"
  using admitted_trusted by blast

end

definition admit_classified :: "flags \<Rightarrow> peerKind \<Rightarrow> bool" where
  "admit_classified fl k = (k \<noteq> peerReject)"

interpretation listener_gate: source_gate admit_classified
  by unfold_locales (simp add: admit_classified_def)

interpretation connect_gate: source_gate allowPeer
  by unfold_locales (simp add: allowPeer_def)

text \<open>The CONNECT proxy, which lends out the fixed egress address, admits a peer exactly
  when it is a Fly 6PN source on Fly, or a tailnet source with both Tailscale and the opt-in
  flag enabled; with the flag off the tailnet is turned down.\<close>

theorem connect_admission_exact:
  "allowPeer fl (classifyPeer fl remote) \<longleftrightarrow>
     (\<exists>ip. remote_ip remote = Some ip \<and>
        (onFly fl \<and> in_fly_6pn ip
         \<or> httpProxyAllowTailscale fl \<and> tailscaleEnabled fl \<and> in_tailnet ip))"
proof
  assume a: "allowPeer fl (classifyPeer fl remote)"
  from connect_gate.admitted_trusted [OF this] obtain ip where
    ip: "remote_ip remote = Some ip" by blast
  with a show "\<exists>ip. remote_ip remote = Some ip \<and>
        (onFly fl \<and> in_fly_6pn ip
         \<or> httpProxyAllowTailscale fl \<and> tailscaleEnabled fl \<and> in_tailnet ip)"
    by (auto simp: allowPeer_def classifyPeer_remote_ip split: if_splits)
next
  assume "\<exists>ip. remote_ip remote = Some ip \<and>
        (onFly fl \<and> in_fly_6pn ip
         \<or> httpProxyAllowTailscale fl \<and> tailscaleEnabled fl \<and> in_tailnet ip)"
  then show "allowPeer fl (classifyPeer fl remote)"
    by (auto simp: allowPeer_def classifyPeer_remote_ip)
qed

end
