(* ===== verification/Utf8.thy ===== *)
theory Utf8
  imports GoStd
begin

text \<open>
  UTF-8 as Go's \<^verbatim>\<open>unicode/utf8\<close> package decodes and encodes it. \<open>rune_len\<close> is the width of
  the encoding at the front of a byte string, 0 where \<^verbatim>\<open>DecodeRune\<close> reports an invalid byte.
\<close>

definition cont_byte :: "nat \<Rightarrow> nat \<Rightarrow> byte \<Rightarrow> bool" where
  "cont_byte lo hi c = (lo \<le> (of_char c :: nat) \<and> (of_char c :: nat) \<le> hi)"

text \<open>\<open>n\<close> continuation bytes, the first one in the range that the lead byte allows.\<close>

fun conts :: "nat \<Rightarrow> nat \<Rightarrow> nat \<Rightarrow> string \<Rightarrow> bool" where
  "conts n lo hi [] = (n = 0)"
| "conts n lo hi (c # s) = (n = 0 \<or> cont_byte lo hi c \<and> conts (n - 1) 0x80 0xBF s)"

text \<open>The number of bytes after a lead byte, and the range of the first.\<close>

definition lead :: "byte \<Rightarrow> (nat \<times> nat \<times> nat) option" where
  "lead c =
     (let n = (of_char c :: nat) in
      if n < 0x80 then Some (0, 0x80, 0xBF)
      else if n < 0xC2 then None
      else if n < 0xE0 then Some (1, 0x80, 0xBF)
      else if n = 0xE0 then Some (2, 0xA0, 0xBF)
      else if n = 0xED then Some (2, 0x80, 0x9F)
      else if n < 0xF0 then Some (2, 0x80, 0xBF)
      else if n = 0xF0 then Some (3, 0x90, 0xBF)
      else if n < 0xF4 then Some (3, 0x80, 0xBF)
      else if n = 0xF4 then Some (3, 0x80, 0x8F)
      else None)"

fun rune_len :: "string \<Rightarrow> nat" where
  "rune_len [] = 0"
| "rune_len (c # s) =
     (case lead c of
        None \<Rightarrow> 0
      | Some (n, lo, hi) \<Rightarrow> if conts n lo hi s then Suc n else 0)"

text \<open>U+FFFD, which stands for an invalid byte or code point.\<close>

definition replacement :: string where
  "replacement = [CHR 0xEF, CHR 0xBF, CHR 0xBD]"

definition EncodeRune :: "nat \<Rightarrow> string" where
  "EncodeRune r =
     (if r < 0x80 then [byte_of r]
      else if r < 0x800 then [byte_of (0xC0 + r div 64), byte_of (0x80 + r mod 64)]
      else if 0xD800 \<le> r \<and> r < 0xE000 \<or> 0x10FFFF < r then replacement
      else if r < 0x10000 then
        [byte_of (0xE0 + r div 4096), byte_of (0x80 + r div 64 mod 64), byte_of (0x80 + r mod 64)]
      else
        [byte_of (0xF0 + r div 262144), byte_of (0x80 + r div 4096 mod 64),
         byte_of (0x80 + r div 64 mod 64), byte_of (0x80 + r mod 64)])"

subsection \<open>Valid strings\<close>

lemma rune_len_pos: "rune_len s \<noteq> 0 \<Longrightarrow> s \<noteq> []"
  by auto

function valid_utf8 :: "string \<Rightarrow> bool" where
  "valid_utf8 s =
     (if s = [] then True else if rune_len s = 0 then False else valid_utf8 (drop (rune_len s) s))"
  by pat_completeness auto
termination
  by (relation "measure length") auto

text \<open>Every byte that starts no encoding is replaced, as decoding followed by encoding does.\<close>

function to_valid :: "string \<Rightarrow> string" where
  "to_valid s =
     (if s = [] then []
      else if rune_len s = 0 then replacement @ to_valid (tl s)
      else take (rune_len s) s @ to_valid (drop (rune_len s) s))"
  by pat_completeness auto
termination
  by (relation "measure length") auto

declare valid_utf8.simps [simp del] to_valid.simps [simp del]

lemma valid_step:
  "s \<noteq> [] \<Longrightarrow> valid_utf8 s \<longleftrightarrow> rune_len s \<noteq> 0 \<and> valid_utf8 (drop (rune_len s) s)"
  by (subst valid_utf8.simps) simp

lemma valid_utf8_Nil [simp]: "valid_utf8 []"
  by (simp add: valid_utf8.simps)

lemma to_valid_Nil [simp]: "to_valid [] = []"
  by (simp add: to_valid.simps)

lemma to_valid_id: "valid_utf8 s \<Longrightarrow> to_valid s = s"
proof (induction s rule: valid_utf8.induct)
  case (1 s)
  then show ?case by (auto simp: valid_utf8.simps [of s] to_valid.simps [of s])
qed

lemma conts_0 [simp]: "conts 0 lo hi s"
  by (cases s) auto

lemma conts_append: "conts n lo hi s \<Longrightarrow> conts n lo hi (s @ t)"
  by (induction n lo hi s rule: conts.induct) auto

lemma conts_length: "conts n lo hi s \<Longrightarrow> n \<le> length s"
  by (induction n lo hi s rule: conts.induct) auto

lemma conts_prefix: "conts n lo hi (s @ t) \<Longrightarrow> n \<le> length s \<Longrightarrow> conts n lo hi s"
  by (induction n lo hi s rule: conts.induct) auto

lemma rune_len_append: "rune_len s \<noteq> 0 \<Longrightarrow> rune_len (s @ t) = rune_len s"
  by (cases s) (auto simp: conts_append split: option.splits if_splits)

lemma rune_len_le: "rune_len s \<le> length s"
  by (cases s) (auto simp: conts_length split: option.splits)

lemma rune_len_prefix: "rune_len (s @ t) \<le> length s \<Longrightarrow> rune_len (s @ t) \<noteq> 0 \<Longrightarrow>
    rune_len s = rune_len (s @ t)"
  by (cases s) (auto intro: conts_prefix split: option.splits if_splits)

lemma rune_len_take: "rune_len s \<noteq> 0 \<Longrightarrow> rune_len (take (rune_len s) s @ t) = rune_len s"
  using rune_len_prefix [of "take (rune_len s) s" "drop (rune_len s) s"] rune_len_le [of s]
    rune_len_append [of "take (rune_len s) s" t]
  by simp

lemma valid_append: "valid_utf8 s \<Longrightarrow> valid_utf8 t \<Longrightarrow> valid_utf8 (s @ t)"
proof (induction s rule: valid_utf8.induct)
  case (1 s)
  show ?case
  proof (cases "s = []")
    case False
    with "1.prems"(1) have v: "rune_len s \<noteq> 0" "valid_utf8 (drop (rune_len s) s)"
      by (simp_all add: valid_step)
    with "1.IH" "1.prems"(2) False rune_len_append [OF v(1), of t] rune_len_le [of s]
    show ?thesis by (simp add: valid_utf8.simps [of "s @ t"])
  qed (use "1.prems" in simp)
qed

lemma valid_rest: "valid_utf8 (s @ t) \<Longrightarrow> valid_utf8 s \<Longrightarrow> valid_utf8 t"
proof (induction s rule: valid_utf8.induct)
  case (1 s)
  show ?case
  proof (cases "s = []")
    case False
    with "1.prems"(2) have v: "rune_len s \<noteq> 0" "valid_utf8 (drop (rune_len s) s)"
      by (simp_all add: valid_step)
    with "1.IH" "1.prems"(1) False rune_len_append [OF v(1), of t] rune_len_le [of s]
    show ?thesis by (simp add: valid_utf8.simps [of "s @ t"])
  qed (use "1.prems" in simp)
qed

text \<open>A continuation byte starts no encoding, so no encoding ends inside another.\<close>

lemma conts_nth: "conts n lo hi s \<Longrightarrow> k < n \<Longrightarrow> 0x80 \<le> lo \<Longrightarrow> hi \<le> 0xBF \<Longrightarrow>
    cont_byte 0x80 0xBF (s ! k)"
proof (induction n lo hi s arbitrary: k rule: conts.induct)
  case (2 n lo hi c s)
  then show ?case by (cases k) (auto simp: cont_byte_def)
qed simp

lemma lead_range: "lead c = Some (n, lo, hi) \<Longrightarrow> 0x80 \<le> lo \<and> hi \<le> 0xBF"
  by (auto simp: lead_def Let_def split: if_splits)

lemma lead_not_cont: "cont_byte 0x80 0xBF c \<Longrightarrow> lead c = None"
  by (auto simp: cont_byte_def lead_def Let_def)

lemma rune_inside:
  assumes "k < rune_len s" "0 < k"
  shows "rune_len (drop k s) = 0"
proof -
  from assms obtain c t n lo hi where s: "s = c # t" "lead c = Some (n, lo, hi)" "conts n lo hi t"
    "rune_len s = Suc n"
    by (cases s) (auto split: option.splits if_splits)
  obtain k' where k: "k = Suc k'" using assms(2) by (cases k) auto
  with s assms have "k' < n" by simp
  then have "cont_byte 0x80 0xBF (t ! k')" "k' < length t"
    using conts_nth [OF s(3)] lead_range [OF s(2)] conts_length [OF s(3)] by auto
  then have "lead (t ! k') = None" "drop k s = t ! k' # drop (Suc k') t"
    using s(1) k by (simp_all add: lead_not_cont Cons_nth_drop_Suc)
  then show ?thesis by simp
qed

lemma valid_front: "valid_utf8 (s @ t) \<Longrightarrow> valid_utf8 t \<Longrightarrow> valid_utf8 s"
proof (induction s rule: valid_utf8.induct)
  case (1 s)
  show ?case
  proof (cases "s = []")
    case False
    with "1.prems"(1) have v: "rune_len (s @ t) \<noteq> 0"
      "valid_utf8 (drop (rune_len (s @ t)) (s @ t))"
      using valid_step [of "s @ t"] by auto
    show ?thesis
    proof (cases "rune_len (s @ t) \<le> length s")
      case True
      with v rune_len_prefix [OF True v(1)] "1.IH" "1.prems"(2) False show ?thesis
        by (simp add: valid_utf8.simps [of s])
    next
      case inside: False
      with False have "rune_len t = 0" using rune_inside [of "length s" "s @ t"] by simp
      moreover have "t \<noteq> []" using inside rune_len_le [of "s @ t"] by auto
      ultimately show ?thesis using "1.prems"(2) by (simp add: valid_utf8.simps [of t])
    qed
  qed simp
qed

lemma valid_take_rune: "rune_len s \<noteq> 0 \<Longrightarrow> valid_utf8 (take (rune_len s) s)"
  using rune_len_take [of s "[]"] by (simp add: valid_utf8.simps [of "take (rune_len s) s"])

lemma valid_one: "rune_len s = length s \<Longrightarrow> valid_utf8 s"
  by (cases "s = []") (simp_all add: valid_step)

lemma valid_ascii: "of_char c < (0x80 :: nat) \<Longrightarrow> valid_utf8 [c]"
  by (rule valid_one) (simp add: lead_def)

lemma valid_replacement: "valid_utf8 replacement"
  by code_simp

lemma valid_four:
  assumes "a < 5" "b < 64" "c < 64" "d < 64" "a = 0 \<Longrightarrow> 16 \<le> b" "a = 4 \<Longrightarrow> b < 16"
  shows "valid_utf8 [byte_of (0xF0 + a), byte_of (0x80 + b), byte_of (0x80 + c), byte_of (0x80 + d)]"
proof -
  have cont: "cont_byte lo hi (byte_of (0x80 + x)) \<longleftrightarrow> lo \<le> 0x80 + x \<and> 0x80 + x \<le> hi" if "x < 64" for x lo hi
    using that by (simp add: cont_byte_def)
  have "lead (byte_of (0xF0 + a)) =
      Some (3, if a = 0 then 0x90 else 0x80, if a = 4 then 0x8F else 0xBF)"
    using assms(1) by (simp add: lead_def Let_def)
  with assms show ?thesis
    by (intro valid_one) (auto simp: cont)
qed

text \<open>Every encoding is valid, the surrogates and what lies beyond the last code point being
  replaced.\<close>

lemma valid_EncodeRune: "valid_utf8 (EncodeRune r)"
proof -
  have q: "r div n = 64 * (r div (n * 64)) + r div n mod 64" for n
    by (simp add: div_mult2_eq)
  consider "r < 0x80" | "0x80 \<le> r" "r < 0x800" | "0xD800 \<le> r \<and> r < 0xE000 \<or> 0x10FFFF < r"
    | "0x800 \<le> r" "r < 0x10000" "\<not> (0xD800 \<le> r \<and> r < 0xE000)"
    | "0x10000 \<le> r" "r \<le> 0x10FFFF" by linarith
  then show ?thesis
  proof cases
    case 1
    then show ?thesis by (simp add: EncodeRune_def valid_ascii)
  next
    case 2
    then have "r div 64 < 32" "2 \<le> r div 64" by auto
    then have "rune_len (EncodeRune r) = length (EncodeRune r)"
      using 2 by (simp add: EncodeRune_def lead_def cont_byte_def Let_def)
    then show ?thesis by (rule valid_one)
  next
    case 3
    then show ?thesis by (auto simp: EncodeRune_def valid_replacement)
  next
    case 4
    have b: "r div 4096 = 0 \<Longrightarrow> 32 \<le> r div 64 mod 64" "r div 4096 = 13 \<Longrightarrow> r div 64 mod 64 < 32"
      "r div 4096 < 16"
      using 4 q [of 64, simplified] by linarith+
    then have "rune_len (EncodeRune r) = length (EncodeRune r)"
      using 4 by (auto simp: EncodeRune_def lead_def cont_byte_def Let_def)
    then show ?thesis by (rule valid_one)
  next
    case 5
    have b: "r div 262144 = 0 \<Longrightarrow> 16 \<le> r div 4096 mod 64" "r div 262144 = 4 \<Longrightarrow> r div 4096 mod 64 < 16"
      "r div 262144 < 5"
      using 5 q [of 4096, simplified] by linarith+
    from valid_four [OF b(3) _ _ _ b(1,2)] 5 show ?thesis
      by (simp add: EncodeRune_def)
  qed
qed

end
