(* ===== verification/Json.thy ===== *)
theory Json
  imports Utf8
begin

text \<open>
  The part of Go's \<^verbatim>\<open>encoding/json\<close> the program uses, on bytes: the syntax accepted by
  \<^verbatim>\<open>Unmarshal\<close> with its nesting limit, string literals with their escapes and the replacement
  of invalid UTF-8, the string encoder with HTML escaping, and the rules by which values are
  stored into strings, integers, structs and slices. Go checks a text with a state machine that
  keeps a stack of open containers; here the machine reads tokens and keeps the values read so far
  on that stack.
\<close>

subsection \<open>String literals\<close>

definition hex_val :: "char \<Rightarrow> nat option" where
  "hex_val c =
     (let n = (of_char c :: nat) in
      if 48 \<le> n \<and> n \<le> 57 then Some (n - 48)
      else if 97 \<le> n \<and> n \<le> 102 then Some (n - 87)
      else if 65 \<le> n \<and> n \<le> 70 then Some (n - 55)
      else None)"

fun hex_number :: "nat \<Rightarrow> string \<Rightarrow> nat option" where
  "hex_number acc [] = Some acc"
| "hex_number acc (c # s) =
     (case hex_val c of None \<Rightarrow> None | Some d \<Rightarrow> hex_number (acc * 16 + d) s)"

text \<open>\<^verbatim>\<open>getu4\<close>: an escape of four hexadecimal digits at the front.\<close>

definition getu4 :: "string \<Rightarrow> nat option" where
  "getu4 s = (if length s < 6 \<or> take 2 s \<noteq> [CHR 0x5C, CHR ''u''] then None
              else hex_number 0 (take 4 (drop 2 s)))"

text \<open>\<^verbatim>\<open>utf16.DecodeRune\<close>.\<close>

definition surrogate_pair :: "nat \<Rightarrow> nat \<Rightarrow> nat option" where
  "surrogate_pair a b =
     (if 0xD800 \<le> a \<and> a < 0xDC00 \<and> 0xDC00 \<le> b \<and> b < 0xE000
      then Some ((a - 0xD800) * 1024 + (b - 0xDC00) + 0x10000) else None)"

definition simple_escape :: "char \<Rightarrow> char option" where
  "simple_escape c =
     (if c = CHR 0x22 \<or> c = CHR 0x5C \<or> c = CHR ''/'' then Some c
      else if c = CHR ''b'' then Some (CHR 0x08)
      else if c = CHR ''f'' then Some (CHR 0x0C)
      else if c = CHR ''n'' then Some (CHR 0x0A)
      else if c = CHR ''r'' then Some (CHR 0x0D)
      else if c = CHR ''t'' then Some (CHR 0x09)
      else None)"

abbreviation emit_str :: "string \<Rightarrow> (string \<times> string) option \<Rightarrow> (string \<times> string) option" where
  "emit_str x r \<equiv> map_option (\<lambda>(s, rest). (x @ s, rest)) r"

text \<open>From behind the opening quote to the closing one: the contents, and what follows.\<close>

function unquote :: "string \<Rightarrow> (string \<times> string) option" where
  "unquote s =
     (if s = [] then None
      else if hd s = CHR 0x22 then Some ([], tl s)
      else if hd s = CHR 0x5C then
        (if tl s = [] then None
         else if hd (tl s) = CHR ''u'' then
           (case getu4 s of
              None \<Rightarrow> None
            | Some r \<Rightarrow>
                if 0xD800 \<le> r \<and> r < 0xE000 then
                  (case getu4 (drop 6 s) of
                     None \<Rightarrow> emit_str replacement (unquote (drop 6 s))
                   | Some r2 \<Rightarrow>
                       (case surrogate_pair r r2 of
                          None \<Rightarrow> emit_str replacement (unquote (drop 6 s))
                        | Some dec \<Rightarrow> emit_str (EncodeRune dec) (unquote (drop 12 s))))
                else emit_str (EncodeRune r) (unquote (drop 6 s)))
         else (case simple_escape (hd (tl s)) of
                 None \<Rightarrow> None
               | Some b \<Rightarrow> emit_str [b] (unquote (drop 2 s))))
      else if of_char (hd s) < (0x20 :: nat) then None
      else if rune_len s = 0 then emit_str replacement (unquote (tl s))
      else emit_str (take (rune_len s) s) (unquote (drop (rune_len s) s)))"
  by pat_completeness auto
termination
  by (relation "measure length") auto

declare unquote.simps [simp del]

lemma unquote_shorter: "unquote s = Some (x, r) \<Longrightarrow> length r < length s"
proof (induction s arbitrary: x r rule: unquote.induct)
  case (1 s)
  from "1.prems" have "s \<noteq> []" by (auto simp: unquote.simps)
  from "1.prems" show ?case
    unfolding unquote.simps [of s]
    using "1.IH" \<open>s \<noteq> []\<close>
    by (auto split: if_splits option.splits simp: drop_Suc less_Suc_eq_le) fastforce+
qed

subsection \<open>Tokens\<close>

datatype token =
    LBrace | RBrace | LBracket | RBracket | Colon | Comma
  | TStr string | TNum string | TTrue | TFalse | TNull

text \<open>One or more digits at the front.\<close>

definition digits1 :: "string \<Rightarrow> (string \<times> string) option" where
  "digits1 s = (if takeWhile is_digit s = [] then None
                else Some (takeWhile is_digit s, dropWhile is_digit s))"

definition int_part :: "string \<Rightarrow> (string \<times> string) option" where
  "int_part s = (if s \<noteq> [] \<and> hd s = CHR ''0'' then Some (''0'', tl s) else digits1 s)"

definition frac_part :: "string \<Rightarrow> (string \<times> string) option" where
  "frac_part s = (if s \<noteq> [] \<and> hd s = CHR ''.'' then emit_str ''.'' (digits1 (tl s)) else Some ([], s))"

text \<open>One of the given characters, if the string starts with it.\<close>

definition optional :: "string \<Rightarrow> string \<Rightarrow> string \<times> string" where
  "optional cs s = (if s \<noteq> [] \<and> hd s \<in> set cs then ([hd s], tl s) else ([], s))"

definition exp_part :: "string \<Rightarrow> (string \<times> string) option" where
  "exp_part s =
     (if s \<noteq> [] \<and> hd s \<in> set ''eE'' then
        (case optional ''+-'' (tl s) of (sign, t) \<Rightarrow> emit_str (hd s # sign) (digits1 t))
      else Some ([], s))"

definition number_lit :: "string \<Rightarrow> (string \<times> string) option" where
  "number_lit s =
     (case optional ''-'' s of (sign, s1) \<Rightarrow>
        (case int_part s1 of
           None \<Rightarrow> None
         | Some (i, s2) \<Rightarrow>
             (case frac_part s2 of
                None \<Rightarrow> None
              | Some (f, s3) \<Rightarrow> emit_str (sign @ i @ f) (exp_part s3))))"

lemma optional_append: "optional cs s = (a, b) \<Longrightarrow> a @ b = s"
  by (auto simp: optional_def split: if_splits)

lemma digits1_append: "digits1 s = Some (d, r) \<Longrightarrow> d @ r = s \<and> d \<noteq> []"
  by (auto simp: digits1_def split: if_splits)

lemma int_part_append: "int_part s = Some (d, r) \<Longrightarrow> d @ r = s \<and> d \<noteq> []"
  by (cases s) (auto simp: int_part_def dest: digits1_append split: if_splits)

lemma frac_part_append: "frac_part s = Some (d, r) \<Longrightarrow> d @ r = s"
  by (cases s) (auto simp: frac_part_def dest: digits1_append split: if_splits)

lemma exp_part_append: "exp_part s = Some (d, r) \<Longrightarrow> d @ r = s"
proof (cases "s \<noteq> [] \<and> hd s \<in> set ''eE''")
  case True
  assume e: "exp_part s = Some (d, r)"
  obtain sign t where o: "optional ''+-'' (tl s) = (sign, t)" by (cases "optional ''+-'' (tl s)")
  from e have "emit_str (hd s # sign) (digits1 t) = Some (d, r)"
    unfolding exp_part_def if_P [OF True] o by simp
  then obtain x where x: "digits1 t = Some (x, r)" "d = hd s # sign @ x" by auto
  have "x @ r = t" using digits1_append [OF x(1)] by simp
  then have "d @ r = hd s # tl s" using x(2) optional_append [OF o] by simp
  moreover have "s \<noteq> []" using True by blast
  ultimately show ?thesis by (metis list.collapse)
next
  case False
  assume "exp_part s = Some (d, r)"
  then show ?thesis unfolding exp_part_def if_not_P [OF False] by simp
qed

lemma number_lit_append: "number_lit s = Some (d, r) \<Longrightarrow> d @ r = s \<and> d \<noteq> []"
proof -
  assume n: "number_lit s = Some (d, r)"
  obtain sign s1 where o: "optional ''-'' s = (sign, s1)" by (cases "optional ''-'' s")
  with n obtain i s2 f s3 e where i: "int_part s1 = Some (i, s2)" and f: "frac_part s2 = Some (f, s3)"
    and e: "exp_part s3 = Some (e, r)" and d: "d = sign @ i @ f @ e"
    by (auto simp: number_lit_def split: option.splits)
  from int_part_append [OF i] frac_part_append [OF f] exp_part_append [OF e] optional_append [OF o] d
  show ?thesis by auto
qed

definition is_ws :: "char \<Rightarrow> bool" where
  "is_ws c = (c = CHR 0x20 \<or> c = CHR 0x09 \<or> c = CHR 0x0D \<or> c = CHR 0x0A)"

definition punct :: "char \<Rightarrow> token option" where
  "punct c =
     (if c = CHR 0x7B then Some LBrace else if c = CHR 0x7D then Some RBrace
      else if c = CHR 0x5B then Some LBracket else if c = CHR 0x5D then Some RBracket
      else if c = CHR 0x3A then Some Colon else if c = CHR 0x2C then Some Comma
      else None)"

definition keyword :: "string \<Rightarrow> (token \<times> string) option" where
  "keyword s =
     (if take 4 s = ''true'' then Some (TTrue, drop 4 s)
      else if take 5 s = ''false'' then Some (TFalse, drop 5 s)
      else if take 4 s = ''null'' then Some (TNull, drop 4 s)
      else None)"

text \<open>The token at the front of a text that starts with no white space, and what follows it.\<close>

definition next_token :: "string \<Rightarrow> (token \<times> string) option" where
  "next_token s =
     (case punct (hd s) of
        Some t \<Rightarrow> Some (t, tl s)
      | None \<Rightarrow>
          if hd s = CHR 0x22 then map_option (\<lambda>(x, r). (TStr x, r)) (unquote (tl s))
          else if hd s = CHR ''-'' \<or> is_digit (hd s)
            then map_option (\<lambda>(n, r). (TNum n, r)) (number_lit s)
          else keyword s)"

lemma next_token_shorter: "next_token s = Some (t, r) \<Longrightarrow> s \<noteq> [] \<Longrightarrow> length r < length s"
  by (auto simp: next_token_def keyword_def neq_Nil_conv dest!: unquote_shorter number_lit_append
      split: if_splits option.splits)

function tokenize :: "string \<Rightarrow> token list option" where
  "tokenize s =
     (if s = [] then Some []
      else if is_ws (hd s) then tokenize (tl s)
      else case next_token s of
        None \<Rightarrow> None
      | Some (t, r) \<Rightarrow> map_option ((#) t) (tokenize r))"
  by pat_completeness auto
termination
  by (relation "measure length") (auto dest: next_token_shorter)

declare tokenize.simps [simp del]

subsection \<open>Values\<close>

datatype json =
    JNull
  | JBool bool
  | JNum string
  | JStr string
  | JArr "json list"
  | JObj "(string \<times> json) list"

text \<open>An open container: the values of an array so far, or the members of an object so far with
  the key whose value is due.\<close>

datatype frame =
    ArrFrame "json list"
  | ObjFrame "(string \<times> json) list" "string option"

datatype mode =
    BeginValue | BeginValueOrEmpty | BeginString | BeginStringOrEmpty | EndKey | EndValue
  | EndTop json

definition maxNestingDepth :: nat where
  "maxNestingDepth = 10000"

type_synonym parse_state = "frame list \<times> mode"

definition end_value :: "json \<Rightarrow> frame list \<Rightarrow> parse_state option" where
  "end_value v fs =
     (case fs of
        [] \<Rightarrow> Some ([], EndTop v)
      | ArrFrame vs # fs' \<Rightarrow> Some (ArrFrame (vs @ [v]) # fs', EndValue)
      | ObjFrame ms (Some k) # fs' \<Rightarrow> Some (ObjFrame (ms @ [(k, v)]) None # fs', EndValue)
      | ObjFrame ms None # fs' \<Rightarrow> None)"

definition push :: "frame \<Rightarrow> frame list \<Rightarrow> mode \<Rightarrow> parse_state option" where
  "push f fs m = (if length fs < maxNestingDepth then Some (f # fs, m) else None)"

definition begin_value :: "token \<Rightarrow> frame list \<Rightarrow> parse_state option" where
  "begin_value t fs =
     (case t of
        TStr s \<Rightarrow> end_value (JStr s) fs
      | TNum n \<Rightarrow> end_value (JNum n) fs
      | TTrue \<Rightarrow> end_value (JBool True) fs
      | TFalse \<Rightarrow> end_value (JBool False) fs
      | TNull \<Rightarrow> end_value JNull fs
      | LBrace \<Rightarrow> push (ObjFrame [] None) fs BeginStringOrEmpty
      | LBracket \<Rightarrow> push (ArrFrame []) fs BeginValueOrEmpty
      | _ \<Rightarrow> None)"

definition begin_string :: "token \<Rightarrow> frame list \<Rightarrow> parse_state option" where
  "begin_string t fs =
     (case (t, fs) of
        (TStr k, ObjFrame ms None # fs') \<Rightarrow> Some (ObjFrame ms (Some k) # fs', EndKey)
      | _ \<Rightarrow> None)"

definition close :: "token \<Rightarrow> frame list \<Rightarrow> parse_state option" where
  "close t fs =
     (case (t, fs) of
        (RBracket, ArrFrame vs # fs') \<Rightarrow> end_value (JArr vs) fs'
      | (RBrace, ObjFrame ms None # fs') \<Rightarrow> end_value (JObj ms) fs'
      | _ \<Rightarrow> None)"

fun parse_step :: "token \<Rightarrow> parse_state \<Rightarrow> parse_state option" where
  "parse_step t (fs, BeginValue) = begin_value t fs"
| "parse_step t (fs, BeginValueOrEmpty) = (if t = RBracket then close t fs else begin_value t fs)"
| "parse_step t (fs, BeginString) = begin_string t fs"
| "parse_step t (fs, BeginStringOrEmpty) = (if t = RBrace then close t fs else begin_string t fs)"
| "parse_step t (fs, EndKey) = (if t = Colon then Some (fs, BeginValue) else None)"
| "parse_step t (fs, EndValue) =
     (if t = Comma then
        (case fs of
           ArrFrame vs # fs' \<Rightarrow> Some (fs, BeginValue)
         | ObjFrame ms k # fs' \<Rightarrow> Some (fs, BeginString)
         | [] \<Rightarrow> None)
      else close t fs)"
| "parse_step t (fs, EndTop v) = None"

fun parse_run :: "token list \<Rightarrow> parse_state \<Rightarrow> parse_state option" where
  "parse_run [] st = Some st"
| "parse_run (t # ts) st =
     (case parse_step t st of None \<Rightarrow> None | Some st' \<Rightarrow> parse_run ts st')"

definition parse_json :: "string \<Rightarrow> json option" where
  "parse_json s =
     (case tokenize s of
        None \<Rightarrow> None
      | Some ts \<Rightarrow>
          (case parse_run ts ([], BeginValue) of
             Some (fs, EndTop v) \<Rightarrow> Some v
           | _ \<Rightarrow> None))"

text \<open>\<^verbatim>\<open>Decoder.Decode\<close> reads the first value of a stream and nothing behind it.\<close>

function parse_first :: "string \<Rightarrow> parse_state \<Rightarrow> json option" where
  "parse_first s st =
     (case snd st of
        EndTop v \<Rightarrow> Some v
      | _ \<Rightarrow>
          if s = [] then None
          else if is_ws (hd s) then parse_first (tl s) st
          else case next_token s of
            None \<Rightarrow> None
          | Some (t, r) \<Rightarrow>
              (case parse_step t st of None \<Rightarrow> None | Some st' \<Rightarrow> parse_first r st'))"
  by pat_completeness auto
termination
  by (relation "measure (\<lambda>(s, st). length s)") (auto dest: next_token_shorter)

declare parse_first.simps [simp del]

lemma parse_first_go:
  "\<nexists>v. m = EndTop v \<Longrightarrow> parse_first s (fs, m) =
     (if s = [] then None
      else if is_ws (hd s) then parse_first (tl s) (fs, m)
      else case next_token s of
        None \<Rightarrow> None
      | Some (t, r) \<Rightarrow>
          (case parse_step t (fs, m) of None \<Rightarrow> None | Some st' \<Rightarrow> parse_first r st'))"
  by (subst parse_first.simps) (auto split: mode.split)

lemma parse_first_end: "parse_first s (fs, EndTop v) = Some v"
  by (simp add: parse_first.simps)

definition decode_json :: "string \<Rightarrow> json option" where
  "decode_json s = parse_first s ([], BeginValue)"

text \<open>On a text that is one value, both readers agree.\<close>

lemma parse_first_run:
  "tokenize s = Some ts \<Longrightarrow> parse_run ts st = Some (fs, EndTop v) \<Longrightarrow> parse_first s st = Some v"
proof (induction s arbitrary: ts st rule: tokenize.induct)
  case (1 s)
  obtain gs m where st: "st = (gs, m)" by (cases st)
  show ?case
  proof (cases "\<exists>v'. m = EndTop v'")
    case True
    with "1.prems" st show ?thesis
      by (cases ts) (auto simp: parse_first.simps)
  next
    case go: False
    note t = "1.prems"(1) [unfolded tokenize.simps [of s]]
    have "s \<noteq> []"
    proof
      assume "s = []"
      with "1.prems" go st show False by (auto simp: tokenize.simps)
    qed
    show ?thesis
    proof (cases "is_ws (hd s)")
      case True
      with t \<open>s \<noteq> []\<close> "1.IH"(1) "1.prems"(2) show ?thesis
        unfolding st parse_first_go [OF go, of s] by simp
    next
      case False
      with t \<open>s \<noteq> []\<close> obtain tk r ts' where n: "next_token s = Some (tk, r)" "tokenize r = Some ts'"
        "ts = tk # ts'"
        by (auto split: option.splits)
      then obtain st' where "parse_step tk st = Some st'" "parse_run ts' st' = Some (fs, EndTop v)"
        using "1.prems"(2) by (auto split: option.splits)
      with "1.IH"(2) [OF \<open>s \<noteq> []\<close> False n(1) refl n(2)] n(1) \<open>s \<noteq> []\<close> False show ?thesis
        unfolding st parse_first_go [OF go, of s] by simp
    qed
  qed
qed

lemma decode_parsed: "parse_json s = Some v \<Longrightarrow> decode_json s = Some v"
  by (auto simp: parse_json_def decode_json_def parse_first_run split: option.splits mode.splits)

subsection \<open>Storing values\<close>

text \<open>Field names match up to case: the fold of a name maps the letters to upper case, with the
  two other runes that fold to a letter, the Kelvin sign and the long s.\<close>

definition upper_byte :: "char \<Rightarrow> char" where
  "upper_byte c = (if 97 \<le> (of_char c :: nat) \<and> of_char c \<le> (122 :: nat)
                   then byte_of (of_char c - 32) else c)"

function foldName :: "string \<Rightarrow> string" where
  "foldName s =
     (if s = [] then []
      else if take 3 s = [CHR 0xE2, CHR 0x84, CHR 0xAA] then ''K'' @ foldName (drop 3 s)
      else if take 2 s = [CHR 0xC5, CHR 0xBF] then ''S'' @ foldName (drop 2 s)
      else upper_byte (hd s) # foldName (tl s))"
  by pat_completeness auto
termination
  by (relation "measure length") auto

declare foldName.simps [simp del]

definition field_is :: "string \<Rightarrow> string \<Rightarrow> bool" where
  "field_is name key = (foldName key = foldName name)"

text \<open>A value stored where \<open>old\<close> is; a null leaves it, a value of another kind is an error
  (\<open>None\<close>). An integer must be written without fraction and exponent and fit 64 bits.\<close>

fun store_string :: "json \<Rightarrow> string \<Rightarrow> string option" where
  "store_string JNull old = Some old"
| "store_string (JStr s) old = Some s"
| "store_string _ old = None"

fun store_int :: "json \<Rightarrow> int \<Rightarrow> int option" where
  "store_int JNull old = Some old"
| "store_int (JNum n) old = Atoi n"
| "store_int _ old = None"

fun store_members :: "(string \<Rightarrow> json \<Rightarrow> 'a \<Rightarrow> 'a option) \<Rightarrow> (string \<times> json) list \<Rightarrow> 'a \<Rightarrow> 'a option" where
  "store_members f [] u = Some u"
| "store_members f ((k, v) # ms) u =
     (case f k v u of None \<Rightarrow> None | Some u' \<Rightarrow> store_members f ms u')"

text \<open>A struct, given what its members do to it, and a slice, given the zero of its elements.\<close>

fun store_struct :: "(string \<Rightarrow> json \<Rightarrow> 'a \<Rightarrow> 'a option) \<Rightarrow> json \<Rightarrow> 'a \<Rightarrow> 'a option" where
  "store_struct f JNull u = Some u"
| "store_struct f (JObj ms) u = store_members f ms u"
| "store_struct f _ u = None"

fun store_all :: "(json \<Rightarrow> 'a option) \<Rightarrow> json list \<Rightarrow> 'a list option" where
  "store_all f [] = Some []"
| "store_all f (v # vs) =
     (case f v of None \<Rightarrow> None | Some x \<Rightarrow> map_option ((#) x) (store_all f vs))"

fun store_slice :: "(json \<Rightarrow> 'a option) \<Rightarrow> json \<Rightarrow> 'a list option" where
  "store_slice f JNull = Some []"
| "store_slice f (JArr vs) = store_all f vs"
| "store_slice f _ = None"

subsection \<open>The string encoder\<close>

definition json_hex :: "char \<Rightarrow> string" where
  "json_hex c = [CHR 0x5C] @ ''u00'' @ map
     (\<lambda>d. if d < 10 then byte_of (48 + d) else byte_of (87 + d)) [of_char c div 16, of_char c mod 16]"

definition json_escape_byte :: "char \<Rightarrow> string" where
  "json_escape_byte c =
     (if c = CHR 0x22 \<or> c = CHR 0x5C then [CHR 0x5C, c]
      else if c = CHR 0x08 then [CHR 0x5C] @ ''b''
      else if c = CHR 0x0C then [CHR 0x5C] @ ''f''
      else if c = CHR 0x0A then [CHR 0x5C] @ ''n''
      else if c = CHR 0x0D then [CHR 0x5C] @ ''r''
      else if c = CHR 0x09 then [CHR 0x5C] @ ''t''
      else if of_char c < (32 :: nat) \<or> c = CHR 0x3C \<or> c = CHR 0x3E \<or> c = CHR 0x26 then json_hex c
      else [c])"

function json_escape :: "string \<Rightarrow> string" where
  "json_escape s =
     (if s = [] then []
      else if of_char (hd s) < (0x80 :: nat) then json_escape_byte (hd s) @ json_escape (tl s)
      else if rune_len s = 0 then [CHR 0x5C] @ ''ufffd'' @ json_escape (tl s)
      else
        (let r = take (rune_len s) s in
         if r = [CHR 0xE2, CHR 0x80, CHR 0xA8] then [CHR 0x5C] @ ''u2028''
         else if r = [CHR 0xE2, CHR 0x80, CHR 0xA9] then [CHR 0x5C] @ ''u2029''
         else r) @ json_escape (drop (rune_len s) s))"
  by pat_completeness auto
termination
  by (relation "measure length") auto

declare json_escape.simps [simp del]

definition json_string :: "string \<Rightarrow> string" where
  "json_string s = [CHR 0x22] @ json_escape s @ [CHR 0x22]"

subsection \<open>Strings read back\<close>

lemma rune_len_ascii: "of_char c < (0x80 :: nat) \<Longrightarrow> rune_len (c # s) = 1"
  by (simp add: lead_def)

lemma to_valid_ascii: "of_char c < (0x80 :: nat) \<Longrightarrow> to_valid (c # s) = c # to_valid s"
  by (simp add: to_valid.simps [of "c # s"] rune_len_ascii del: rune_len.simps)

lemma unquote_quote: "unquote (CHR 0x22 # r) = Some ([], r)"
  by (simp add: unquote.simps)

lemma unquote_simple:
  "simple_escape e = Some b \<Longrightarrow> unquote (CHR 0x5C # e # s) = emit_str [b] (unquote s)"
  by (simp add: unquote.simps [of "CHR 0x5C # e # s"])
    (auto simp: simple_escape_def split: if_splits)

lemma unquote_rune:
  assumes "s \<noteq> []" "hd s \<noteq> CHR 0x22" "hd s \<noteq> CHR 0x5C" "0x20 \<le> (of_char (hd s) :: nat)"
    and "rune_len s \<noteq> 0"
  shows "unquote (take (rune_len s) s @ r) = emit_str (take (rune_len s) s) (unquote r)"
proof -
  let ?w = "take (rune_len s) s"
  have w: "?w \<noteq> []" "hd ?w = hd s" "rune_len (?w @ r) = rune_len s" "length ?w = rune_len s"
    using assms(1,5) rune_len_take [OF assms(5), of r] rune_len_le [of s] by (simp_all add: hd_take)
  then have "take (rune_len s) (?w @ r) = ?w" "drop (rune_len s) (?w @ r) = r" by auto
  with w assms show ?thesis
    by (subst unquote.simps) simp
qed

lemma unquote_u:
  assumes "hex_number 0 h = Some n" "length h = 4" "n < 0xD800 \<or> 0xE000 \<le> n"
  shows "unquote ([CHR 0x5C, CHR ''u''] @ h @ r) = emit_str (EncodeRune n) (unquote r)"
proof -
  have "getu4 ([CHR 0x5C, CHR ''u''] @ h @ r) = Some n" using assms by (simp add: getu4_def)
  moreover have "drop 6 ([CHR 0x5C, CHR ''u''] @ h @ r) = r" using assms(2) by simp
  ultimately show ?thesis
    using assms(3) by (subst unquote.simps) auto
qed

lemma hex_val_digit:
  "d < 16 \<Longrightarrow> hex_val (if d < 10 then byte_of (48 + d) else byte_of (87 + d)) = Some d"
  by (auto simp: hex_val_def Let_def)

lemma unquote_hex:
  assumes "of_char c < (0x80 :: nat)"
  shows "unquote (json_hex c @ r) = emit_str [c] (unquote r)"
proof -
  let ?d = "\<lambda>d. if d < 10 then byte_of (48 + d) else byte_of (87 + d) :: char"
  let ?n = "of_char c :: nat"
  let ?h = "''00'' @ [?d (?n div 16), ?d (?n mod 16)]"
  have "hex_val (CHR ''0'') = Some 0" by (simp add: hex_val_def)
  moreover have "hex_val (?d (?n div 16)) = Some (?n div 16)" using assms by (intro hex_val_digit) simp
  moreover have "hex_val (?d (?n mod 16)) = Some (?n mod 16)" by (intro hex_val_digit) simp
  ultimately have "hex_number 0 ?h = Some ?n" by simp
  from unquote_u [OF this, of r] assms show ?thesis
    by (simp add: json_hex_def EncodeRune_def)
qed

lemma unquote_escape_byte:
  assumes "of_char c < (0x80 :: nat)"
  shows "unquote (json_escape_byte c @ r) = emit_str [c] (unquote r)"
proof (cases "c = CHR 0x22 \<or> c = CHR 0x5C \<or> c \<in> set [CHR 0x08, CHR 0x0C, CHR 0x0A, CHR 0x0D, CHR 0x09]")
  case True
  then show ?thesis
    by (auto simp: json_escape_byte_def unquote_simple simple_escape_def)
next
  case False
  show ?thesis
  proof (cases "of_char c < (32 :: nat) \<or> c = CHR 0x3C \<or> c = CHR 0x3E \<or> c = CHR 0x26")
    case True
    with False unquote_hex [OF assms] show ?thesis by (simp add: json_escape_byte_def)
  next
    case plain: False
    with False have e: "json_escape_byte c = [c]" by (simp add: json_escape_byte_def)
    have "unquote (take (rune_len [c]) [c] @ r) = emit_str (take (rune_len [c]) [c]) (unquote r)"
      using False plain rune_len_ascii [OF assms] by (intro unquote_rune) auto
    then show ?thesis using e rune_len_ascii [OF assms, of "[]"] by simp
  qed
qed

text \<open>A string written by the encoder is read back with its invalid bytes replaced.\<close>

lemma unquote_escape: "unquote (json_escape s @ CHR 0x22 # r) = Some (to_valid s, r)"
proof (induction s rule: json_escape.induct)
  case (1 s)
  consider "s = []" | "s \<noteq> []" "of_char (hd s) < (0x80 :: nat)"
    | "s \<noteq> []" "\<not> of_char (hd s) < (0x80 :: nat)" "rune_len s = 0"
    | "s \<noteq> []" "\<not> of_char (hd s) < (0x80 :: nat)" "rune_len s \<noteq> 0" by blast
  then show ?case
  proof cases
    case 1
    then show ?thesis by (simp add: json_escape.simps unquote_quote)
  next
    case 2
    then have "to_valid s = hd s # to_valid (tl s)"
      using to_valid_ascii [of "hd s" "tl s"] by simp
    with 2 "1.IH"(1) show ?thesis
      by (simp add: json_escape.simps [of s] unquote_escape_byte)
  next
    case 3
    have "hex_number 0 ''fffd'' = Some 0xFFFD" by code_simp
    from unquote_u [OF this, of "json_escape (tl s) @ CHR 0x22 # r"]
    have "unquote ([CHR 0x5C] @ ''ufffd'' @ json_escape (tl s) @ CHR 0x22 # r)
        = emit_str (EncodeRune 0xFFFD) (unquote (json_escape (tl s) @ CHR 0x22 # r))" by simp
    moreover have "EncodeRune 0xFFFD = replacement" by code_simp
    ultimately show ?thesis
      using 3 "1.IH"(2) by (simp add: json_escape.simps [of s] to_valid.simps [of s])
  next
    case 4
    let ?w = "take (rune_len s) s" and ?t = "json_escape (drop (rune_len s) s) @ CHR 0x22 # r"
    have IH: "unquote ?t = Some (to_valid (drop (rune_len s) s), r)" using "1.IH"(3) 4 by simp
    have v: "to_valid s = ?w @ to_valid (drop (rune_len s) s)"
      using 4 by (simp add: to_valid.simps [of s])
    have hd: "0x80 \<le> (of_char (hd s) :: nat)" using 4(2) by simp
    have "hd s \<noteq> CHR 0x22" "hd s \<noteq> CHR 0x5C" "0x20 \<le> (of_char (hd s) :: nat)"
      using hd by auto
    then have plain: "unquote (?w @ ?t) = emit_str ?w (unquote ?t)"
      using 4 by (intro unquote_rune)
    consider (ls) "?w = [CHR 0xE2, CHR 0x80, CHR 0xA8]" | (ps) "?w = [CHR 0xE2, CHR 0x80, CHR 0xA9]"
      | (other) "?w \<noteq> [CHR 0xE2, CHR 0x80, CHR 0xA8]" "?w \<noteq> [CHR 0xE2, CHR 0x80, CHR 0xA9]" by blast
    then show ?thesis
    proof cases
      case ls
      have h: "hex_number 0 ''2028'' = Some 0x2028"
        and e: "EncodeRune 0x2028 = [CHR 0xE2, CHR 0x80, CHR 0xA8]"
        by (code_simp, code_simp)
      from unquote_u [OF h, of ?t] IH v ls 4 show ?thesis
        by (simp add: json_escape.simps [of s] e)
    next
      case ps
      have h: "hex_number 0 ''2029'' = Some 0x2029"
        and e: "EncodeRune 0x2029 = [CHR 0xE2, CHR 0x80, CHR 0xA9]"
        by (code_simp, code_simp)
      from unquote_u [OF h, of ?t] IH v ps 4 show ?thesis
        by (simp add: json_escape.simps [of s] e)
    next
      case other
      have "json_escape s = ?w @ json_escape (drop (rune_len s) s)"
        unfolding json_escape.simps [of s] using 4 other by simp
      with plain IH v show ?thesis by simp
    qed
  qed
qed

subsection \<open>Everything read is valid text\<close>

lemma unquote_valid: "unquote s = Some (x, r) \<Longrightarrow> valid_utf8 x"
proof (induction s arbitrary: x r rule: unquote.induct)
  case (1 s)
  have esc: "valid_utf8 [b]" if "simple_escape c = Some b" for c b
    using that by (intro valid_ascii) (auto simp: simple_escape_def split: if_splits)
  from "1.prems" show ?case
    unfolding unquote.simps [of s]
    using "1.IH"
    by (auto simp: valid_append valid_EncodeRune valid_replacement valid_take_rune esc
        split: if_splits option.splits intro: valid_append [OF esc, simplified])
qed

fun token_ok :: "token \<Rightarrow> bool" where
  "token_ok (TStr s) = valid_utf8 s"
| "token_ok _ = True"

lemma next_token_ok: "next_token s = Some (t, r) \<Longrightarrow> token_ok t"
  by (auto simp: next_token_def keyword_def punct_def dest: unquote_valid split: if_splits option.splits)

lemma tokenize_ok: "tokenize s = Some ts \<Longrightarrow> list_all token_ok ts"
proof (induction s arbitrary: ts rule: tokenize.induct)
  case (1 s)
  from "1.prems" "1.IH" show ?case
    by (subst (asm) (1) tokenize.simps) (auto split: if_splits option.splits dest: next_token_ok)
qed

fun json_ok :: "json \<Rightarrow> bool" where
  "json_ok (JStr s) = valid_utf8 s"
| "json_ok (JArr vs) = list_all json_ok vs"
| "json_ok (JObj ms) = list_all (\<lambda>m. valid_utf8 (fst m) \<and> json_ok (snd m)) ms"
| "json_ok _ = True"

fun frame_ok :: "frame \<Rightarrow> bool" where
  "frame_ok (ArrFrame vs) = list_all json_ok vs"
| "frame_ok (ObjFrame ms k) = (list_all (\<lambda>m. valid_utf8 (fst m) \<and> json_ok (snd m)) ms
     \<and> (\<forall>s. k = Some s \<longrightarrow> valid_utf8 s))"

definition state_ok :: "parse_state \<Rightarrow> bool" where
  "state_ok st = (list_all frame_ok (fst st) \<and> (\<forall>v. snd st = EndTop v \<longrightarrow> json_ok v))"

lemma end_value_ok:
  "end_value v fs = Some st \<Longrightarrow> json_ok v \<Longrightarrow> list_all frame_ok fs \<Longrightarrow> state_ok st"
  by (auto simp: end_value_def state_ok_def split: list.splits frame.splits option.splits)

lemma close_ok: "close t fs = Some st \<Longrightarrow> list_all frame_ok fs \<Longrightarrow> state_ok st"
  by (auto simp: close_def split: token.splits list.splits frame.splits option.splits
      dest: end_value_ok)

lemma begin_value_ok:
  "begin_value t fs = Some st \<Longrightarrow> token_ok t \<Longrightarrow> list_all frame_ok fs \<Longrightarrow> state_ok st"
  by (cases t) (auto simp: begin_value_def push_def state_ok_def [of "(_, _)"] split: if_splits
      dest: end_value_ok)

lemma begin_string_ok:
  "begin_string t fs = Some st \<Longrightarrow> token_ok t \<Longrightarrow> list_all frame_ok fs \<Longrightarrow> state_ok st"
  by (auto simp: begin_string_def state_ok_def split: token.splits list.splits frame.splits option.splits)

lemma parse_step_ok:
  assumes "parse_step t (fs, m) = Some st" "token_ok t" "list_all frame_ok fs"
  shows "state_ok st"
proof (cases m)
  case EndValue
  with assms show ?thesis
    by (auto split: if_splits list.splits frame.splits dest: close_ok) (auto simp: state_ok_def)
qed (use assms in \<open>auto split: if_splits dest: begin_value_ok begin_string_ok close_ok simp: state_ok_def [of "(_, BeginValue)"]\<close>)

lemma parse_run_ok:
  "parse_run ts st = Some st' \<Longrightarrow> list_all token_ok ts \<Longrightarrow> state_ok st \<Longrightarrow> state_ok st'"
proof (induction ts arbitrary: st)
  case (Cons t ts)
  obtain fs m where st: "st = (fs, m)" by (cases st)
  with Cons show ?case
    by (auto split: option.splits dest: parse_step_ok simp: state_ok_def [of "(fs, m)"])
qed simp

lemma parse_json_ok: "parse_json s = Some v \<Longrightarrow> json_ok v"
proof -
  assume "parse_json s = Some v"
  then obtain ts fs where l: "tokenize s = Some ts" and r: "parse_run ts ([], BeginValue) = Some (fs, EndTop v)"
    by (auto simp: parse_json_def split: option.splits mode.splits prod.splits)
  have "state_ok (fs, EndTop v)"
    by (rule parse_run_ok [OF r tokenize_ok [OF l]]) (simp add: state_ok_def)
  then show ?thesis by (simp add: state_ok_def)
qed

lemma parse_first_ok: "parse_first s st = Some v \<Longrightarrow> state_ok st \<Longrightarrow> json_ok v"
proof (induction s arbitrary: st rule: measure_induct_rule [where f = length])
  case (less s)
  obtain fs m where st: "st = (fs, m)" by (cases st)
  show ?case
  proof (cases "\<exists>v'. m = EndTop v'")
    case True
    with less.prems st show ?thesis by (auto simp: parse_first_end state_ok_def)
  next
    case go: False
    note p = less.prems(1) [unfolded st parse_first_go [OF go, of s]]
    then have s: "s \<noteq> []" by auto
    show ?thesis
    proof (cases "is_ws (hd s)")
      case True
      with p s less.IH [of "tl s" "(fs, m)"] less.prems(2) st show ?thesis by simp
    next
      case False
      with p s obtain t r st' where t: "next_token s = Some (t, r)" "parse_step t (fs, m) = Some st'"
        "parse_first r st' = Some v"
        by (auto split: option.splits)
      have "state_ok st'"
        using parse_step_ok [OF t(2) next_token_ok [OF t(1)]] less.prems(2) st
        by (simp add: st state_ok_def [of "(fs, m)"])
      with less.IH [OF next_token_shorter [OF t(1) s] t(3)] show ?thesis .
    qed
  qed
qed

lemma decode_json_ok: "decode_json s = Some v \<Longrightarrow> json_ok v"
  by (auto simp: decode_json_def state_ok_def dest: parse_first_ok)

end
