(* ===== verification/Config.thy ===== *)
theory Config
  imports GoNet Json
begin

text \<open>
  The configuration of the gateway (\<^verbatim>\<open>src/fly.go\<close>): Postgres upstreams and plain-TCP
  targets, how a JSON text is stored into lists of them (\<^verbatim>\<open>json.Unmarshal\<close> at the two
  types, with the JSON of theory \<open>Json\<close>; \<open>None\<close> for an error), and the two validating parsers. The locale \<open>entry_loop\<close> is the contract of a loop that normalises
  and checks its entries one by one against what it has seen; both parsers are instances.
\<close>

record upstreamConfig =
  u_Name :: string
  u_Listen :: int
  u_Target :: string
  u_DBName :: string
  u_User :: string
  u_Password :: string

definition managed :: "upstreamConfig \<Rightarrow> bool" where
  "managed u = (u_User u \<noteq> [])"

record tcpTarget =
  t_Name :: string
  t_Listen :: int
  t_Target :: string

subsection \<open>Decoding\<close>

definition no_config :: upstreamConfig where
  "no_config = \<lparr>u_Name = [], u_Listen = 0, u_Target = [], u_DBName = [], u_User = [], u_Password = []\<rparr>"

definition no_target :: tcpTarget where
  "no_target = \<lparr>t_Name = [], t_Listen = 0, t_Target = []\<rparr>"

text \<open>What one member of a JSON object does to an entry; a member without a field is skipped.\<close>

definition pg_member :: "string \<Rightarrow> json \<Rightarrow> upstreamConfig \<Rightarrow> upstreamConfig option" where
  "pg_member key v u =
     (if field_is ''name'' key then map_option (\<lambda>x. u\<lparr>u_Name := x\<rparr>) (store_string v (u_Name u))
      else if field_is ''listen'' key then map_option (\<lambda>x. u\<lparr>u_Listen := x\<rparr>) (store_int v (u_Listen u))
      else if field_is ''target'' key then map_option (\<lambda>x. u\<lparr>u_Target := x\<rparr>) (store_string v (u_Target u))
      else if field_is ''dbname'' key then map_option (\<lambda>x. u\<lparr>u_DBName := x\<rparr>) (store_string v (u_DBName u))
      else if field_is ''user'' key then map_option (\<lambda>x. u\<lparr>u_User := x\<rparr>) (store_string v (u_User u))
      else if field_is ''password'' key
        then map_option (\<lambda>x. u\<lparr>u_Password := x\<rparr>) (store_string v (u_Password u))
      else Some u)"

definition tcp_member :: "string \<Rightarrow> json \<Rightarrow> tcpTarget \<Rightarrow> tcpTarget option" where
  "tcp_member key v t =
     (if field_is ''name'' key then map_option (\<lambda>x. t\<lparr>t_Name := x\<rparr>) (store_string v (t_Name t))
      else if field_is ''listen'' key then map_option (\<lambda>x. t\<lparr>t_Listen := x\<rparr>) (store_int v (t_Listen t))
      else if field_is ''target'' key then map_option (\<lambda>x. t\<lparr>t_Target := x\<rparr>) (store_string v (t_Target t))
      else Some t)"

definition pg_Unmarshal :: "string \<Rightarrow> upstreamConfig list option" where
  "pg_Unmarshal s =
     (case parse_json s of
        None \<Rightarrow> None
      | Some v \<Rightarrow> store_slice (\<lambda>x. store_struct pg_member x no_config) v)"

definition tcp_Unmarshal :: "string \<Rightarrow> tcpTarget list option" where
  "tcp_Unmarshal s =
     (case parse_json s of
        None \<Rightarrow> None
      | Some v \<Rightarrow> store_slice (\<lambda>x. store_struct tcp_member x no_target) v)"

subsection \<open>Errors\<close>

text \<open>One constructor per error return, with the values the message prints.\<close>

datatype cfgError =
    InvalidJSON
  | EmptyName nat
  | InvalidListenPort string int
  | TargetNotHostPort string addr_error
  | UserWithoutPassword string
  | PasswordWithoutUser string
  | DBNameWithoutUser string
  | DuplicateName string
  | DuplicatePort int string string

subsection \<open>Postgres entries\<close>

record pgSeen =
  seenName :: "string \<Rightarrow> bool"
  seenPort :: "int \<Rightarrow> string option"

definition pg_entry :: "nat \<Rightarrow> pgSeen \<Rightarrow> upstreamConfig \<Rightarrow> cfgError + upstreamConfig \<times> pgSeen" where
  "pg_entry i st u0 =
     (let u1 = u0\<lparr>u_Name := TrimSpace (u_Name u0), u_Target := TrimSpace (u_Target u0)\<rparr> in
      if u_Name u1 = [] then Inl (EmptyName i)
      else if u_Listen u1 \<le> 0 \<or> u_Listen u1 > 65535
        then Inl (InvalidListenPort (u_Name u1) (u_Listen u1))
      else case SplitHostPort (u_Target u1) of
        Inl e \<Rightarrow> Inl (TargetNotHostPort (u_Name u1) e)
      | Inr _ \<Rightarrow>
          let u = u1\<lparr>u_DBName := TrimSpace (u_DBName u1), u_User := TrimSpace (u_User u1)\<rparr> in
          if u_User u \<noteq> [] \<and> u_Password u = [] then Inl (UserWithoutPassword (u_Name u))
          else if u_User u = [] \<and> u_Password u \<noteq> [] then Inl (PasswordWithoutUser (u_Name u))
          else if u_DBName u \<noteq> [] \<and> u_User u = [] then Inl (DBNameWithoutUser (u_Name u))
          else if seenName st (u_Name u) then Inl (DuplicateName (u_Name u))
          else case seenPort st (u_Listen u) of
            Some prev \<Rightarrow> Inl (DuplicatePort (u_Listen u) prev (u_Name u))
          | None \<Rightarrow>
              Inr (u, st\<lparr>seenName := (seenName st)(u_Name u := True),
                         seenPort := (seenPort st)(u_Listen u \<mapsto> u_Name u)\<rparr>))"

fun pg_entries :: "nat \<Rightarrow> pgSeen \<Rightarrow> upstreamConfig list \<Rightarrow> cfgError + upstreamConfig list" where
  "pg_entries i st [] = Inr []"
| "pg_entries i st (u # us) =
     bind_result (pg_entry i st u) (\<lambda>(u', st').
       bind_result (pg_entries (i + 1) st' us) (\<lambda>us'. Inr (u' # us')))"

definition pg_init :: pgSeen where
  "pg_init = \<lparr>seenName = (\<lambda>_. False), seenPort = Map.empty\<rparr>"

definition parseDestinationPgDbsJSON :: "string \<Rightarrow> cfgError + upstreamConfig list" where
  "parseDestinationPgDbsJSON raw =
     (let s = TrimSpace raw in
      if s = [] then Inr []
      else case pg_Unmarshal s of
        None \<Rightarrow> Inl InvalidJSON
      | Some list \<Rightarrow> pg_entries 0 pg_init list)"

subsection \<open>Plain-TCP entries\<close>

definition tcp_entry ::
  "nat \<Rightarrow> (string \<Rightarrow> bool) \<Rightarrow> tcpTarget \<Rightarrow> cfgError + tcpTarget \<times> (string \<Rightarrow> bool)" where
  "tcp_entry i seen t0 =
     (let t = t0\<lparr>t_Name := TrimSpace (t_Name t0), t_Target := TrimSpace (t_Target t0)\<rparr> in
      if t_Name t = [] then Inl (EmptyName i)
      else if t_Listen t \<le> 0 \<or> t_Listen t > 65535
        then Inl (InvalidListenPort (t_Name t) (t_Listen t))
      else case SplitHostPort (t_Target t) of
        Inl e \<Rightarrow> Inl (TargetNotHostPort (t_Name t) e)
      | Inr _ \<Rightarrow>
          if seen (t_Name t) then Inl (DuplicateName (t_Name t))
          else Inr (t, seen(t_Name t := True)))"

fun tcp_entries :: "nat \<Rightarrow> (string \<Rightarrow> bool) \<Rightarrow> tcpTarget list \<Rightarrow> cfgError + tcpTarget list" where
  "tcp_entries i seen [] = Inr []"
| "tcp_entries i seen (t # ts) =
     bind_result (tcp_entry i seen t) (\<lambda>(t', seen').
       bind_result (tcp_entries (i + 1) seen' ts) (\<lambda>ts'. Inr (t' # ts')))"

definition parseDestinationTCPTargetsJSON :: "string \<Rightarrow> cfgError + tcpTarget list" where
  "parseDestinationTCPTargetsJSON raw =
     (let s = TrimSpace raw in
      if s = [] then Inr []
      else case tcp_Unmarshal s of
        None \<Rightarrow> Inl InvalidJSON
      | Some list \<Rightarrow> tcp_entries 0 (\<lambda>_. False) list)"

subsection \<open>The contract of an entry loop\<close>

text \<open>
  One step accepts an entry when its normal form is well formed and does not clash with an
  entry seen before, and then remembers it. The loop then accepts exactly the lists whose
  normal forms are well formed and pairwise without a clash, and returns the normal forms.
\<close>

locale entry_loop =
  fixes step :: "nat \<Rightarrow> 's \<Rightarrow> 'e \<Rightarrow> 'err + 'e \<times> 's"
    and loop :: "nat \<Rightarrow> 's \<Rightarrow> 'e list \<Rightarrow> 'err + 'e list"
    and norm :: "'e \<Rightarrow> 'e"
    and ok :: "'e \<Rightarrow> bool"
    and fresh :: "'s \<Rightarrow> 'e \<Rightarrow> bool"
    and clash :: "'e \<Rightarrow> 'e \<Rightarrow> bool"
  assumes loop_Nil: "loop i s [] = Inr []"
    and loop_Cons: "loop i s (e # es) =
      bind_result (step i s e) (\<lambda>(e', s'). bind_result (loop (i + 1) s' es) (\<lambda>es'. Inr (e' # es')))"
    and step_accepts: "(\<exists>s'. step i s e = Inr (e', s')) \<longleftrightarrow> e' = norm e \<and> ok e' \<and> fresh s e'"
    and step_remembers: "step i s e = Inr (e', s') \<Longrightarrow> fresh s' x \<longleftrightarrow> fresh s x \<and> \<not> clash e' x"
begin

lemma loop_accepts:
  "loop i s es = Inr out \<longleftrightarrow>
     out = map norm es \<and> list_all ok out \<and> list_all (fresh s) out
     \<and> sorted_wrt (\<lambda>a b. \<not> clash a b) out"
proof (induction es arbitrary: i s out)
  case Nil
  then show ?case by (auto simp: loop_Nil)
next
  case (Cons e es)
  show ?case
  proof (cases "step i s e")
    case (Inl err)
    then have "\<not> (ok (norm e) \<and> fresh s (norm e))"
      using step_accepts [of i s e "norm e"] by auto
    with Inl show ?thesis by (auto simp: loop_Cons)
  next
    case (Inr r)
    obtain e' s' where r: "r = (e', s')" by (cases r)
    with Inr have st: "step i s e = Inr (e', s')" by simp
    then have e': "e' = norm e" "ok e'" "fresh s e'"
      using step_accepts [of i s e e'] by blast+
    have fresh': "fresh s' x \<longleftrightarrow> fresh s x \<and> \<not> clash (norm e) x" for x
      using step_remembers [OF st] e'(1) by simp
    from st e' show ?thesis
      by (auto simp: loop_Cons bind_result_Inr_iff Cons.IH fresh' list_all_iff)
  qed
qed

lemma loop_length: "loop i s es = Inr out \<Longrightarrow> length out = length es"
  by (simp add: loop_accepts)

end

subsection \<open>Well-formed configurations\<close>

definition target_ok :: "string \<Rightarrow> bool" where
  "target_ok t = is_ok (SplitHostPort t)"

definition pg_norm :: "upstreamConfig \<Rightarrow> upstreamConfig" where
  "pg_norm u = u\<lparr>u_Name := TrimSpace (u_Name u), u_Target := TrimSpace (u_Target u),
     u_DBName := TrimSpace (u_DBName u), u_User := TrimSpace (u_User u)\<rparr>"

text \<open>A well-formed entry: credentials come in pairs, and a default database needs them.\<close>

definition pg_ok :: "upstreamConfig \<Rightarrow> bool" where
  "pg_ok u = (u_Name u \<noteq> [] \<and> 1 \<le> u_Listen u \<and> u_Listen u \<le> 65535 \<and> target_ok (u_Target u)
     \<and> (u_User u = [] \<longleftrightarrow> u_Password u = []) \<and> (u_User u = [] \<longrightarrow> u_DBName u = []))"

definition pg_clash :: "upstreamConfig \<Rightarrow> upstreamConfig \<Rightarrow> bool" where
  "pg_clash a b = (u_Name a = u_Name b \<or> u_Listen a = u_Listen b)"

definition pg_fresh :: "pgSeen \<Rightarrow> upstreamConfig \<Rightarrow> bool" where
  "pg_fresh st u = (\<not> seenName st (u_Name u) \<and> seenPort st (u_Listen u) = None)"

definition tcp_norm :: "tcpTarget \<Rightarrow> tcpTarget" where
  "tcp_norm t = t\<lparr>t_Name := TrimSpace (t_Name t), t_Target := TrimSpace (t_Target t)\<rparr>"

definition tcp_ok :: "tcpTarget \<Rightarrow> bool" where
  "tcp_ok t = (t_Name t \<noteq> [] \<and> 1 \<le> t_Listen t \<and> t_Listen t \<le> 65535 \<and> target_ok (t_Target t))"

lemma pg_entry_Inr_iff:
  "pg_entry i st u = Inr (u', st') \<longleftrightarrow>
     u' = pg_norm u \<and> pg_ok u' \<and> pg_fresh st u'
     \<and> st' = st\<lparr>seenName := (seenName st)(u_Name u' := True),
                seenPort := (seenPort st)(u_Listen u' \<mapsto> u_Name u')\<rparr>"
  by (auto simp: pg_entry_def pg_norm_def pg_ok_def pg_fresh_def target_ok_def Let_def
      split: sum.splits option.splits if_splits)

lemma tcp_entry_Inr_iff:
  "tcp_entry i seen t = Inr (t', seen') \<longleftrightarrow>
     t' = tcp_norm t \<and> tcp_ok t' \<and> \<not> seen (t_Name t') \<and> seen' = seen(t_Name t' := True)"
  by (auto simp: tcp_entry_def tcp_norm_def tcp_ok_def target_ok_def Let_def
      split: sum.splits if_splits)

interpretation pg_loop: entry_loop pg_entry pg_entries pg_norm pg_ok pg_fresh pg_clash
proof (unfold_locales, goal_cases)
  case (4 i s e e' s' x)
  then show ?case
    unfolding pg_entry_Inr_iff by (auto simp: pg_fresh_def pg_clash_def)
qed (auto simp: pg_entry_Inr_iff)

interpretation tcp_loop: entry_loop tcp_entry tcp_entries tcp_norm tcp_ok
  "\<lambda>seen t. \<not> seen (t_Name t)" "\<lambda>a b. t_Name a = t_Name b"
  by unfold_locales (auto simp: tcp_entry_Inr_iff)

lemma pg_fresh_init [simp]: "pg_fresh pg_init u"
  by (simp add: pg_fresh_def pg_init_def)

lemma sorted_wrt_pg_clash:
  "sorted_wrt (\<lambda>a b. \<not> pg_clash a b) us \<longleftrightarrow> distinct (map u_Name us) \<and> distinct (map u_Listen us)"
  by (induction us) (auto simp: pg_clash_def)

lemma sorted_wrt_tcp_clash:
  "sorted_wrt (\<lambda>a b. t_Name a \<noteq> t_Name b) ts \<longleftrightarrow> distinct (map t_Name ts)"
  by (induction ts) auto

lemma pg_entries_accepts:
  "pg_entries 0 pg_init us = Inr out \<longleftrightarrow>
     out = map pg_norm us \<and> list_all pg_ok out
     \<and> distinct (map u_Name out) \<and> distinct (map u_Listen out)"
  unfolding pg_loop.loop_accepts sorted_wrt_pg_clash by (auto simp: list_all_iff)

lemma tcp_entries_accepts:
  "tcp_entries 0 (\<lambda>_. False) ts = Inr out \<longleftrightarrow>
     out = map tcp_norm ts \<and> list_all tcp_ok out \<and> distinct (map t_Name out)"
  unfolding tcp_loop.loop_accepts sorted_wrt_tcp_clash by (auto simp: list_all_iff)

text \<open>C18: the Postgres configuration parser accepts a text exactly when it is blank (no
  databases) or decodes to entries that, once trimmed, are all well formed (non-empty name,
  port in 1..65535, host:port target, user and password both or neither, a default database
  only with a user) and have pairwise distinct names and ports; it then returns those trimmed
  entries in order, passwords untouched.\<close>

theorem parseDestinationPgDbs_accepts:
  "parseDestinationPgDbsJSON raw = Inr out \<longleftrightarrow>
     (TrimSpace raw = [] \<and> out = []
      \<or> TrimSpace raw \<noteq> [] \<and> (\<exists>us. pg_Unmarshal (TrimSpace raw) = Some us
          \<and> out = map pg_norm us \<and> list_all pg_ok out
          \<and> distinct (map u_Name out) \<and> distinct (map u_Listen out)))"
  by (auto simp: parseDestinationPgDbsJSON_def pg_entries_accepts Let_def split: option.splits)

text \<open>The plain-TCP parser accepts exactly the blank text and the lists whose trimmed
  entries are well formed with pairwise distinct names; unlike the Postgres parser it leaves
  clashing ports to the startup check.\<close>

theorem parseDestinationTCPTargets_accepts:
  "parseDestinationTCPTargetsJSON raw = Inr out \<longleftrightarrow>
     (TrimSpace raw = [] \<and> out = []
      \<or> TrimSpace raw \<noteq> [] \<and> (\<exists>ts. tcp_Unmarshal (TrimSpace raw) = Some ts
          \<and> out = map tcp_norm ts \<and> list_all tcp_ok out \<and> distinct (map t_Name out)))"
  by (auto simp: parseDestinationTCPTargetsJSON_def tcp_entries_accepts Let_def
      split: option.splits)

end
