(* ===== verification/Ports.thy ===== *)
theory Ports
  imports Config
begin

text \<open>
  The startup check of every listen port (\<^verbatim>\<open>validateListenPorts\<close> in
  \<^verbatim>\<open>src/fly.go\<close>): the claims of the Postgres entries, the plain-TCP entries, the
  CONNECT proxy, the debug page and the DNS forwarder, first against the reserved ranges and
  then against each other. The owner of a claim, a display string in the source, is a
  datatype with one constructor per format string.
\<close>

definition pgPortMin :: int where "pgPortMin = 5400"
definition pgPortMax :: int where "pgPortMax = 6000"
definition tcpPortMin :: int where "tcpPortMin = 9000"
definition tcpPortMax :: int where "tcpPortMax = 9999"

lemmas port_consts = pgPortMin_def pgPortMax_def tcpPortMin_def tcpPortMax_def

text \<open>The address the DNS forwarder binds (\<^verbatim>\<open>src/dns.go\<close>).\<close>

definition dnsListen :: string where "dnsListen = ''[::]:53''"

datatype port_owner = PgDb string | TcpTarget string | ConnectProxy | DebugPage | DnsForwarder

record portClaim =
  port :: int
  claim_owner :: port_owner

datatype portError =
    PgOutOfRange string int
  | TcpOutOfRange string int
  | BadConnectAddress string addr_error
  | BadConnectPort string string
  | PortClash int port_owner port_owner

fun pg_claims :: "upstreamConfig list \<Rightarrow> portError + portClaim list" where
  "pg_claims [] = Inr []"
| "pg_claims (u # us) =
     (if u_Listen u < pgPortMin \<or> u_Listen u > pgPortMax
      then Inl (PgOutOfRange (u_Name u) (u_Listen u))
      else bind_result (pg_claims us) (\<lambda>cs.
        Inr (\<lparr>port = u_Listen u, claim_owner = PgDb (u_Name u)\<rparr> # cs)))"

fun tcp_claims :: "tcpTarget list \<Rightarrow> portError + portClaim list" where
  "tcp_claims [] = Inr []"
| "tcp_claims (t # ts) =
     (if t_Listen t < tcpPortMin \<or> t_Listen t > tcpPortMax
      then Inl (TcpOutOfRange (t_Name t) (t_Listen t))
      else bind_result (tcp_claims ts) (\<lambda>cs.
        Inr (\<lparr>port = t_Listen t, claim_owner = TcpTarget (t_Name t)\<rparr> # cs)))"

definition connect_claims :: "string \<Rightarrow> portError + portClaim list" where
  "connect_claims addr =
     (if addr \<noteq> [] then
        (case SplitHostPort addr of
           Inl e \<Rightarrow> Inl (BadConnectAddress addr e)
         | Inr (host, portStr) \<Rightarrow>
             (case Atoi portStr of
                None \<Rightarrow> Inl (BadConnectPort addr portStr)
              | Some p \<Rightarrow>
                  if p \<le> 0 \<or> p > 65535 then Inl (BadConnectPort addr portStr)
                  else Inr [\<lparr>port = p, claim_owner = ConnectProxy\<rparr>]))
      else Inr [])"

definition debug_claims :: "int \<Rightarrow> portClaim list" where
  "debug_claims n = (if n > 0 then [\<lparr>port = n, claim_owner = DebugPage\<rparr>] else [])"

definition dns_claims :: "portClaim list" where
  "dns_claims =
     (case SplitHostPort dnsListen of
        Inl e \<Rightarrow> []
      | Inr (host, portStr) \<Rightarrow>
          (case Atoi portStr of
             None \<Rightarrow> []
           | Some p \<Rightarrow> [\<lparr>port = p, claim_owner = DnsForwarder\<rparr>]))"

fun claim_clash :: "(int \<Rightarrow> port_owner option) \<Rightarrow> portClaim list \<Rightarrow> portError + unit" where
  "claim_clash byPort [] = Inr ()"
| "claim_clash byPort (c # cs) =
     (case byPort (port c) of
        Some prev \<Rightarrow> Inl (PortClash (port c) prev (claim_owner c))
      | None \<Rightarrow> claim_clash (byPort(port c \<mapsto> claim_owner c)) cs)"

definition validateListenPorts ::
  "upstreamConfig list \<Rightarrow> tcpTarget list \<Rightarrow> string \<Rightarrow> int \<Rightarrow> portError + unit" where
  "validateListenPorts pgs tcps httpProxyAddr debugPortNum =
     bind_result (pg_claims pgs) (\<lambda>c1.
     bind_result (tcp_claims tcps) (\<lambda>c2.
     bind_result (connect_claims httpProxyAddr) (\<lambda>c3.
       claim_clash Map.empty (c1 @ c2 @ c3 @ debug_claims debugPortNum @ dns_claims))))"

subsection \<open>Lemmas\<close>

lemma dns_claims_eq: "dns_claims = [\<lparr>port = 53, claim_owner = DnsForwarder\<rparr>]"
  by code_simp

definition pg_in_range :: "upstreamConfig \<Rightarrow> bool" where
  "pg_in_range u = (5400 \<le> u_Listen u \<and> u_Listen u \<le> 6000)"

definition tcp_in_range :: "tcpTarget \<Rightarrow> bool" where
  "tcp_in_range t = (9000 \<le> t_Listen t \<and> t_Listen t \<le> 9999)"

definition pg_claim :: "upstreamConfig \<Rightarrow> portClaim" where
  "pg_claim u = \<lparr>port = u_Listen u, claim_owner = PgDb (u_Name u)\<rparr>"

definition tcp_claim :: "tcpTarget \<Rightarrow> portClaim" where
  "tcp_claim t = \<lparr>port = t_Listen t, claim_owner = TcpTarget (t_Name t)\<rparr>"

lemma pg_claims_iff: "pg_claims us = Inr cs \<longleftrightarrow> list_all pg_in_range us \<and> cs = map pg_claim us"
  by (induction us arbitrary: cs)
    (auto simp: bind_result_Inr_iff pg_in_range_def pg_claim_def port_consts)

lemma tcp_claims_iff: "tcp_claims ts = Inr cs \<longleftrightarrow> list_all tcp_in_range ts \<and> cs = map tcp_claim ts"
  by (induction ts arbitrary: cs)
    (auto simp: bind_result_Inr_iff tcp_in_range_def tcp_claim_def port_consts)

text \<open>The port a CONNECT listen address claims: none when it is empty or malformed.\<close>

definition connect_ports :: "string \<Rightarrow> int list" where
  "connect_ports addr =
     (case connect_claims addr of Inl e \<Rightarrow> [] | Inr cs \<Rightarrow> map port cs)"

definition connect_addr_ok :: "string \<Rightarrow> bool" where
  "connect_addr_ok addr =
     (addr = [] \<or> (case SplitHostPort addr of
        Inl e \<Rightarrow> False
      | Inr (host, portStr) \<Rightarrow>
          (case Atoi portStr of None \<Rightarrow> False | Some p \<Rightarrow> 0 < p \<and> p \<le> 65535)))"

lemma connect_claims_ok_iff: "(\<exists>cs. connect_claims addr = Inr cs) \<longleftrightarrow> connect_addr_ok addr"
  by (auto simp: connect_claims_def connect_addr_ok_def split: sum.splits option.splits)

lemma connect_claims_owner:
  "connect_claims addr = Inr cs \<Longrightarrow> c \<in> set cs \<Longrightarrow> claim_owner c = ConnectProxy"
  by (auto simp: connect_claims_def split: if_splits sum.splits option.splits)

lemma claim_clash_ok_iff:
  "claim_clash m cs = Inr () \<longleftrightarrow> distinct (map port cs) \<and> (\<forall>c \<in> set cs. m (port c) = None)"
  by (induction cs arbitrary: m) (auto split: option.splits, metis image_eqI)

lemma claims_no_clash:
  "pg_claims us \<noteq> Inl (PortClash p o1 o2)"
  "tcp_claims ts \<noteq> Inl (PortClash p o1 o2)"
  "connect_claims addr \<noteq> Inl (PortClash p o1 o2)"
proof -
  show "pg_claims us \<noteq> Inl (PortClash p o1 o2)"
    by (induction us) (simp_all add: bind_result_Inl_iff)
  show "tcp_claims ts \<noteq> Inl (PortClash p o1 o2)"
    by (induction ts) (simp_all add: bind_result_Inl_iff)
  show "connect_claims addr \<noteq> Inl (PortClash p o1 o2)"
    by (simp add: connect_claims_def split: sum.splits option.splits)
qed

lemma claim_clash_Inl:
  "claim_clash m cs = Inl e \<Longrightarrow>
     \<exists>xs c ys prev. cs = xs @ c # ys \<and> e = PortClash (port c) prev (claim_owner c)
       \<and> (m (port c) = Some prev \<or> (\<exists>d \<in> set xs. port d = port c \<and> claim_owner d = prev))"
proof (induction cs arbitrary: m)
  case Nil
  then show ?case by simp
next
  case (Cons c cs)
  show ?case
  proof (cases "m (port c)")
    case (Some prev)
    with Cons.prems show ?thesis by force
  next
    case None
    with Cons.prems have "claim_clash (m(port c \<mapsto> claim_owner c)) cs = Inl e" by simp
    from Cons.IH [OF this] obtain xs d ys prev where
      "cs = xs @ d # ys" "e = PortClash (port d) prev (claim_owner d)"
      "(m(port c \<mapsto> claim_owner c)) (port d) = Some prev
        \<or> (\<exists>x \<in> set xs. port x = port d \<and> claim_owner x = prev)"
      by blast
    then show ?thesis
      by (intro exI [of _ "c # xs"]) (auto split: if_splits)
  qed
qed

text \<open>Every TCP port the process claims, in the order of the table.\<close>

definition claimed_ports :: "upstreamConfig list \<Rightarrow> tcpTarget list \<Rightarrow> string \<Rightarrow> int \<Rightarrow> int list" where
  "claimed_ports pgs tcps addr dbg =
     map u_Listen pgs @ map t_Listen tcps @ connect_ports addr
     @ (if dbg > 0 then [dbg] else []) @ [53]"

lemma validate_iff:
  "validateListenPorts pgs tcps addr dbg = Inr () \<longleftrightarrow>
     list_all pg_in_range pgs \<and> list_all tcp_in_range tcps \<and> connect_addr_ok addr
     \<and> distinct (claimed_ports pgs tcps addr dbg)"
proof (cases "connect_claims addr")
  case (Inl e)
  then have "\<not> connect_addr_ok addr"
    using connect_claims_ok_iff [of addr] by auto
  with Inl show ?thesis
    by (auto simp: validateListenPorts_def bind_result_Inr_iff)
next
  case (Inr cs)
  then have ok: "connect_addr_ok addr" and ports: "connect_ports addr = map port cs"
    using connect_claims_ok_iff [of addr] by (auto simp: connect_ports_def)
  have "map port (map pg_claim pgs @ map tcp_claim tcps @ cs @ debug_claims dbg @ dns_claims)
      = claimed_ports pgs tcps addr dbg"
    by (simp add: claimed_ports_def ports dns_claims_eq debug_claims_def
        pg_claim_def tcp_claim_def comp_def)
  then have clash: "claim_clash Map.empty
        (map pg_claim pgs @ map tcp_claim tcps @ cs @ debug_claims dbg @ dns_claims) = Inr ()
      \<longleftrightarrow> distinct (claimed_ports pgs tcps addr dbg)"
    by (simp only: claim_clash_ok_iff) simp
  show ?thesis
    by (auto simp: validateListenPorts_def bind_result_Inr_iff Inr pg_claims_iff tcp_claims_iff
        ok clash)
qed

text \<open>C17: the startup check succeeds exactly when every Postgres port lies in 5400..6000,
  every plain-TCP port in 9000..9999, the CONNECT address is empty or a host:port with a port
  in 1..65535, and no port is claimed twice among all five kinds of listener.\<close>

theorem validateListenPorts_accepts:
  "validateListenPorts pgs tcps addr dbg = Inr () \<longleftrightarrow>
     list_all pg_in_range pgs \<and> list_all tcp_in_range tcps \<and> connect_addr_ok addr
     \<and> distinct (claimed_ports pgs tcps addr dbg)"
  by (rule validate_iff)

text \<open>The reserved bands keep the two kinds of entry apart: the check never reports a
  Postgres entry and a plain-TCP entry as claimants of one port, whichever comes first; a
  clash always involves two entries of one kind or an infrastructure listener.\<close>

theorem pg_tcp_never_clash:
  "validateListenPorts pgs tcps addr dbg \<noteq> Inl (PortClash p (PgDb a) (TcpTarget b))
   \<and> validateListenPorts pgs tcps addr dbg \<noteq> Inl (PortClash p (TcpTarget b) (PgDb a))"
proof -
  have "False" if
    v: "validateListenPorts pgs tcps addr dbg = Inl (PortClash p o1 o2)" and
    owners: "{o1, o2} = {PgDb a, TcpTarget b}" for o1 o2
  proof -
    from v claims_no_clash obtain c3 where
      ranges: "list_all pg_in_range pgs" "list_all tcp_in_range tcps"
      and c3: "connect_claims addr = Inr c3"
      and clash: "claim_clash Map.empty
        (map pg_claim pgs @ map tcp_claim tcps @ c3 @ debug_claims dbg @ dns_claims)
        = Inl (PortClash p o1 o2)"
      by (auto simp: validateListenPorts_def bind_result_Inl_iff pg_claims_iff tcp_claims_iff)
    let ?cs = "map pg_claim pgs @ map tcp_claim tcps @ c3 @ debug_claims dbg @ dns_claims"
    from claim_clash_Inl [OF clash] obtain c d where
      cd: "c \<in> set ?cs" "d \<in> set ?cs" "port c = p" "port d = p"
        "claim_owner c = o2" "claim_owner d = o1"
      by fastforce
    have range: "5400 \<le> port x \<and> port x \<le> 6000" if "x \<in> set ?cs" "claim_owner x = PgDb n" for x n
      using that ranges connect_claims_owner [OF c3]
      by (auto simp: list_all_iff pg_in_range_def pg_claim_def tcp_claim_def debug_claims_def
          dns_claims_eq split: if_splits)
    have range': "9000 \<le> port x" if "x \<in> set ?cs" "claim_owner x = TcpTarget n" for x n
      using that ranges connect_claims_owner [OF c3]
      by (auto simp: list_all_iff tcp_in_range_def pg_claim_def tcp_claim_def debug_claims_def
          dns_claims_eq split: if_splits)
    from owners have "o1 = PgDb a \<and> o2 = TcpTarget b \<or> o1 = TcpTarget b \<and> o2 = PgDb a"
      by (auto simp: doubleton_eq_iff)
    then show False
    proof
      assume "o1 = PgDb a \<and> o2 = TcpTarget b"
      with cd range [of d a] range' [of c b] show False by simp
    next
      assume "o1 = TcpTarget b \<and> o2 = PgDb a"
      with cd range [of c a] range' [of d b] show False by simp
    qed
  qed
  then show ?thesis by blast
qed

end
