(* ===== verification/Startup.thy ===== *)
theory Startup
  imports GoStd
begin

text \<open>
  The Postgres StartupMessage (\<^verbatim>\<open>src/fly.go\<close>,
  \<^verbatim>\<open>src/credentials-manager.go\<close>): detecting a plaintext opening, reading a message
  off a connection, parsing its parameters, and rewriting it with an
  \<^verbatim>\<open>application_name\<close>. The abstract view of a message is its list of key/value
  pairs; \<open>encode_startup\<close> is the wire form of such a list.
\<close>

definition pgProtoV3 :: nat where
  "pgProtoV3 = 0x30000"

definition sslStart :: bytes where
  "sslStart = [CHR 0x00, CHR 0x00, CHR 0x00, CHR 0x08, CHR 0x04, CHR 0xD2, CHR 0x16, CHR 0x2F]"

abbreviation app_key :: string where
  "app_key \<equiv> ''application_name''"

datatype startupError =
    PrefixTooShort
  | LengthOutOfRange nat
  | PrefixLongerThanMessage
  | ReadFailed
  | StartupTooShort nat
  | LengthMismatch nat nat
  | NotV3 nat
  | NotNulTerminated
  | MalformedKey
  | MalformedValue string

text \<open>The argument is the first 8 bytes of a connection.\<close>

definition isPlaintextStartup :: "bytes \<Rightarrow> bool" where
  "isPlaintextStartup buf =
     (let len = Uint32 (take 4 buf) in
      if len < 8 \<or> len > 65536 then False
      else Uint32 (take 4 (drop 4 buf)) = pgProtoV3)"

subsection \<open>Reading a message\<close>

definition readStartupMessageWithPrefix :: "bytes \<Rightarrow> bytes \<Rightarrow> startupError + bytes \<times> bytes" where
  "readStartupMessageWithPrefix r prefix =
     (if length prefix < 4 then Inl PrefixTooShort
      else
        let len = Uint32 (take 4 prefix) in
        if len < 8 \<or> len > 65536 then Inl (LengthOutOfRange len)
        else
          let n = min (length prefix) len in
          if n > len then Inl PrefixLongerThanMessage
          else case ReadFull (len - n) r of
            None \<Rightarrow> Inl ReadFailed
          | Some (bs, r') \<Rightarrow> Inr (take n prefix @ bs, r'))"

definition readStartupMessage :: "bytes \<Rightarrow> startupError + bytes \<times> bytes" where
  "readStartupMessage r =
     (case ReadFull 4 r of
        None \<Rightarrow> Inl ReadFailed
      | Some (lenBuf, r') \<Rightarrow> readStartupMessageWithPrefix r' lenBuf)"

subsection \<open>Parsing\<close>

text \<open>The loop of \<open>rewriteStartup\<close> collects the keys and values in order.\<close>

function startup_pairs :: "bytes \<Rightarrow> startupError + (string \<times> string) list" where
  "startup_pairs body =
     (if body = [] then Inr []
      else case IndexByte body nul of
        None \<Rightarrow> Inl MalformedKey
      | Some i \<Rightarrow>
          if take i body = [] then Inr []
          else case IndexByte (drop (i + 1) body) nul of
            None \<Rightarrow> Inl (MalformedValue (take i body))
          | Some j \<Rightarrow>
              bind_result (startup_pairs (drop (j + 1) (drop (i + 1) body))) (\<lambda>ps.
                Inr ((take i body, take j (drop (i + 1) body)) # ps)))"
  by pat_completeness auto
termination
  by (relation "measure length") auto

text \<open>The loop of \<open>parseStartupParams\<close> stores them in a map as it goes.\<close>

function parse_params ::
  "(string \<Rightarrow> string option) \<Rightarrow> bytes \<Rightarrow> startupError + (string \<Rightarrow> string option)" where
  "parse_params params body =
     (if body = [] then Inr params
      else case IndexByte body nul of
        None \<Rightarrow> Inl MalformedKey
      | Some i \<Rightarrow>
          if take i body = [] then Inr params
          else case IndexByte (drop (i + 1) body) nul of
            None \<Rightarrow> Inl (MalformedValue (take i body))
          | Some j \<Rightarrow>
              parse_params (params(take i body \<mapsto> take j (drop (i + 1) body)))
                (drop (j + 1) (drop (i + 1) body)))"
  by pat_completeness auto
termination
  by (relation "measure (\<lambda>(params, body). length body)") auto

declare startup_pairs.simps [simp del] parse_params.simps [simp del]

definition parseStartupParams :: "bytes \<Rightarrow> startupError + (string \<Rightarrow> string option)" where
  "parseStartupParams raw =
     (if length raw < 9 then Inl (StartupTooShort (length raw))
      else
        let len = Uint32 (take 4 raw) in
        if len \<noteq> length raw then Inl (LengthMismatch len (length raw))
        else
          let proto = Uint32 (take 4 (drop 4 raw)) in
          if proto \<noteq> pgProtoV3 then Inl (NotV3 proto)
          else if raw ! (len - 1) \<noteq> nul then Inl NotNulTerminated
          else parse_params Map.empty (drop 8 (take (len - 1) raw)))"

subsection \<open>Attribution and rewriting\<close>

definition finalAppName :: "string \<Rightarrow> string \<Rightarrow> bool \<Rightarrow> string" where
  "finalAppName clientVal identity fromTS =
     (if identity = [] then clientVal
      else if clientVal = [] then identity
      else if fromTS then clientVal @ '' ('' @ identity @ '')''
      else clientVal)"

text \<open>The position of the first \<^verbatim>\<open>application_name\<close>; \<^verbatim>\<open>-1\<close> is \<open>None\<close>.\<close>

definition app_index :: "(string \<times> string) list \<Rightarrow> nat option" where
  "app_index kvs =
     (let n = length (takeWhile (\<lambda>kv. fst kv \<noteq> app_key) kvs) in
      if n < length kvs then Some n else None)"

definition encode_pairs :: "(string \<times> string) list \<Rightarrow> bytes" where
  "encode_pairs kvs = concat (map (\<lambda>kv. fst kv @ [nul] @ snd kv @ [nul]) kvs)"

text \<open>The buffer \<open>rewriteStartup\<close> fills: a length field patched in at the end, the protocol,
  the pairs and the final NUL.\<close>

definition encode_startup :: "(string \<times> string) list \<Rightarrow> bytes" where
  "encode_startup kvs =
     (let out = PutUint32 0 @ PutUint32 pgProtoV3 @ encode_pairs kvs @ [nul] in
      PutUint32 (length out) @ drop 4 out)"

definition rewriteStartup :: "bytes \<Rightarrow> string \<Rightarrow> bool \<Rightarrow> startupError + bytes" where
  "rewriteStartup raw injectAppName fromTS =
     (if length raw < 8 then Inl (StartupTooShort (length raw))
      else
        let len = Uint32 (take 4 raw) in
        if len \<noteq> length raw then Inl (LengthMismatch len (length raw))
        else if Uint32 (take 4 (drop 4 raw)) \<noteq> pgProtoV3 then Inr raw
        else if injectAppName = [] then Inr raw
        else if len < 9 \<or> raw ! (len - 1) \<noteq> nul then Inl NotNulTerminated
        else bind_result (startup_pairs (drop 8 (take (len - 1) raw))) (\<lambda>kvs.
          case app_index kvs of
            Some idx \<Rightarrow>
              let existing = snd (kvs ! idx);
                  newVal = finalAppName existing injectAppName fromTS in
              if newVal = existing then Inr raw
              else Inr (encode_startup (kvs[idx := (fst (kvs ! idx), newVal)]))
          | None \<Rightarrow>
              Inr (encode_startup (kvs @ [(app_key, finalAppName [] injectAppName fromTS)]))))"

subsection \<open>The wire form and the abstract parameter list\<close>

definition pair_ok :: "string \<times> string \<Rightarrow> bool" where
  "pair_ok kv = (fst kv \<noteq> [] \<and> nul \<notin> set (fst kv) \<and> nul \<notin> set (snd kv))"

abbreviation pairs_ok :: "(string \<times> string) list \<Rightarrow> bool" where
  "pairs_ok kvs \<equiv> list_all pair_ok kvs"

lemma encode_pairs_simps [simp]:
  "encode_pairs [] = []"
  "encode_pairs ((k, v) # kvs) = k @ nul # v @ nul # encode_pairs kvs"
  "encode_pairs (xs @ ys) = encode_pairs xs @ encode_pairs ys"
  by (simp_all add: encode_pairs_def)

lemma startup_pairs_Nil [simp]: "startup_pairs [] = Inr []"
  by (simp add: startup_pairs.simps)

lemma startup_pairs_Cons:
  assumes "pair_ok (k, v)"
  shows "startup_pairs (k @ nul # v @ nul # rest) =
    bind_result (startup_pairs rest) (\<lambda>ps. Inr ((k, v) # ps))"
  using assms by (subst startup_pairs.simps) (simp add: pair_ok_def)

lemma startup_pairs_encode: "pairs_ok kvs \<Longrightarrow> startup_pairs (encode_pairs kvs) = Inr kvs"
proof (induction kvs)
  case (Cons kv kvs)
  then show ?case by (cases kv) (simp add: startup_pairs_Cons)
qed simp

lemma startup_pairs_ok: "startup_pairs body = Inr kvs \<Longrightarrow> pairs_ok kvs"
proof (induction body arbitrary: kvs rule: startup_pairs.induct)
  case (1 body)
  show ?case
  proof (cases "body = []")
    case False
    with "1.prems" obtain i where i: "IndexByte body nul = Some i"
      by (subst (asm) startup_pairs.simps) (auto split: option.splits)
    show ?thesis
    proof (cases "take i body = []")
      case True
      with "1.prems" i False show ?thesis by (subst (asm) startup_pairs.simps) simp
    next
      case key: False
      with "1.prems" i False obtain j ps where
        j: "IndexByte (drop (i + 1) body) nul = Some j"
        and ps: "startup_pairs (drop (j + 1) (drop (i + 1) body)) = Inr ps"
        and kvs: "kvs = (take i body, take j (drop (i + 1) body)) # ps"
        by (subst (asm) startup_pairs.simps)
          (auto simp: bind_result_Inr_iff split: option.splits)
      have "nul \<notin> set (take i body)"
        using i by (auto elim: IndexByte_SomeE)
      moreover have "nul \<notin> set (take j (drop (i + 1) body))"
        using j by (auto elim: IndexByte_SomeE)
      moreover have "pairs_ok ps"
        using "1.IH" False i key j ps by blast
      ultimately show ?thesis
        using kvs key by (simp add: pair_ok_def [of "(take i body, _)"])
    qed
  qed (use "1.prems" in simp)
qed

lemma length_startup_pairs:
  "startup_pairs body = Inr kvs \<Longrightarrow> length (encode_pairs kvs) \<le> length body"
proof (induction body arbitrary: kvs rule: startup_pairs.induct)
  case (1 body)
  show ?case
  proof (cases "kvs = []")
    case False
    with "1.prems" obtain i j ps where
      b: "body \<noteq> []" and i: "IndexByte body nul = Some i" and key: "take i body \<noteq> []"
      and j: "IndexByte (drop (i + 1) body) nul = Some j"
      and ps: "startup_pairs (drop (j + 1) (drop (i + 1) body)) = Inr ps"
      and kvs: "kvs = (take i body, take j (drop (i + 1) body)) # ps"
      by (subst (asm) startup_pairs.simps)
        (auto simp: bind_result_Inr_iff split: if_splits option.splits)
    have "length (encode_pairs ps) \<le> length (drop (j + 1) (drop (i + 1) body))"
      using "1.IH" b i key j ps by blast
    with kvs IndexByte_less [OF i] IndexByte_less [OF j] show ?thesis by simp
  qed simp
qed

text \<open>The two parsing loops agree: the map is the list read with later entries winning.\<close>

lemma parse_params_pairs:
  "parse_params m body = map_sum id (\<lambda>kvs. m ++ map_of (rev kvs)) (startup_pairs body)"
proof (induction m body rule: parse_params.induct)
  case (1 m body)
  show ?case
  proof (cases "body = []")
    case True
    then show ?thesis by (simp add: parse_params.simps)
  next
    case False
    note unfold = parse_params.simps [of m body] startup_pairs.simps [of body]
    show ?thesis
    proof (cases "IndexByte body nul")
      case None
      with False show ?thesis unfolding unfold by simp
    next
      case (Some i)
      show ?thesis
      proof (cases "take i body = [] \<or> IndexByte (drop (i + 1) body) nul = None")
        case True
        with False Some show ?thesis unfolding unfold by auto
      next
        case key: False
        then obtain j where j: "IndexByte (drop (i + 1) body) nul = Some j" by auto
        have IH: "parse_params (m(take i body \<mapsto> take j (drop (i + 1) body)))
              (drop (j + 1) (drop (i + 1) body)) =
            map_sum id (\<lambda>kvs. m(take i body \<mapsto> take j (drop (i + 1) body)) ++ map_of (rev kvs))
              (startup_pairs (drop (j + 1) (drop (i + 1) body)))"
          using "1.IH" False Some key j by blast
        show ?thesis
          unfolding unfold using False Some key j IH
          by (cases "startup_pairs (drop (j + 1) (drop (i + 1) body))")
            (simp_all add: map_add_def fun_eq_iff split: option.splits)
      qed
    qed
  qed
qed


lemma length_encode_startup: "length (encode_startup kvs) = length (encode_pairs kvs) + 9"
  by (simp add: encode_startup_def)

lemma encode_startup_eq:
  "encode_startup kvs =
     PutUint32 (length (encode_pairs kvs) + 9) @ PutUint32 pgProtoV3 @ encode_pairs kvs @ [nul]"
  by (simp add: encode_startup_def Let_def add.commute)

text \<open>A message whose length fits its 32-bit length field.\<close>

definition fits32 :: "(string \<times> string) list \<Rightarrow> bool" where
  "fits32 kvs = (length (encode_startup kvs) < 4294967296)"

lemma take_4_encode [simp]: "take 4 (encode_startup kvs) = PutUint32 (length (encode_startup kvs))"
  by (simp add: length_encode_startup) (simp add: encode_startup_eq)

lemma drop_4_encode: "drop 4 (encode_startup kvs) = PutUint32 pgProtoV3 @ encode_pairs kvs @ [nul]"
  by (simp add: encode_startup_eq)

lemma Uint32_exact [simp]: "v < 4294967296 \<Longrightarrow> Uint32 (PutUint32 v) = v"
  using Uint32_Put [of v "[]"] by simp

lemma Uint32_proto [simp]: "Uint32 (PutUint32 pgProtoV3) = pgProtoV3"
  by (rule Uint32_exact) (simp add: pgProtoV3_def)

lemma body_encode:
  "drop 8 (take (length (encode_startup kvs) - 1) (encode_startup kvs)) = encode_pairs kvs"
  by (simp add: encode_startup_eq length_encode_startup)

lemma last_encode: "encode_startup kvs ! (length (encode_startup kvs) - Suc 0) = nul"
  by (simp add: encode_startup_eq length_encode_startup nth_append)

lemmas encode_facts = length_encode_startup drop_4_encode body_encode last_encode

lemma parseStartupParams_encode:
  assumes "pairs_ok kvs" "fits32 kvs"
  shows "parseStartupParams (encode_startup kvs) = Inr (map_of (rev kvs))"
proof -
  have "parse_params Map.empty (encode_pairs kvs) = Inr (map_of (rev kvs))"
    by (simp add: parse_params_pairs startup_pairs_encode [OF assms(1)])
  moreover have "Uint32 (take 4 (encode_startup kvs)) = length (encode_startup kvs)"
    using assms(2) by (simp add: fits32_def)
  moreover have "Uint32 (take 4 (drop 4 (encode_startup kvs))) = pgProtoV3"
    by (simp add: drop_4_encode)
  moreover have "9 \<le> length (encode_startup kvs)"
    by (simp add: length_encode_startup)
  ultimately show ?thesis
    unfolding parseStartupParams_def Let_def
    using last_encode [of kvs] body_encode [of kvs] by simp
qed

subsection \<open>The abstract effect of rewriting\<close>

text \<open>What rewriting does to the parameter list: the first application name is replaced by
  the attributed one, and a list without any gets one appended.\<close>

fun set_app :: "string \<Rightarrow> bool \<Rightarrow> (string \<times> string) list \<Rightarrow> (string \<times> string) list" where
  "set_app ident fromTS [] = [(app_key, ident)]"
| "set_app ident fromTS ((k, v) # kvs) =
     (if k = app_key then (k, finalAppName v ident fromTS) # kvs
      else (k, v) # set_app ident fromTS kvs)"

lemma app_index_Cons:
  "app_index ((k, v) # kvs) = (if k = app_key then Some 0 else map_option Suc (app_index kvs))"
  by (simp add: app_index_def)

lemma app_index_Nil [simp]: "app_index [] = None"
  by (simp add: app_index_def)

lemma finalAppName_empty: "ident \<noteq> [] \<Longrightarrow> finalAppName [] ident ts = ident"
  by (simp add: finalAppName_def)

lemma set_app_index:
  "ident \<noteq> [] \<Longrightarrow> set_app ident ts kvs =
     (case app_index kvs of
        Some i \<Rightarrow> kvs[i := (fst (kvs ! i), finalAppName (snd (kvs ! i)) ident ts)]
      | None \<Rightarrow> kvs @ [(app_key, finalAppName [] ident ts)])"
proof (induction kvs)
  case Nil
  then show ?case by (simp add: finalAppName_empty)
next
  case (Cons kv kvs)
  then show ?case
    by (cases kv) (auto simp: app_index_Cons split: option.splits)
qed

lemma app_index_bound: "app_index kvs = Some i \<Longrightarrow> i < length kvs"
  by (auto simp: app_index_def Let_def split: if_splits)

lemma set_app_unchanged:
  "ident \<noteq> [] \<Longrightarrow> app_index kvs = Some i \<Longrightarrow>
   finalAppName (snd (kvs ! i)) ident ts = snd (kvs ! i) \<Longrightarrow> set_app ident ts kvs = kvs"
  by (simp add: set_app_index app_index_bound)

lemma finalAppName_nul:
  "nul \<notin> set v \<Longrightarrow> nul \<notin> set ident \<Longrightarrow> nul \<notin> set (finalAppName v ident ts)"
  by (simp add: finalAppName_def)

lemma set_app_ok: "pairs_ok kvs \<Longrightarrow> nul \<notin> set ident \<Longrightarrow> pairs_ok (set_app ident ts kvs)"
  by (induction kvs) (auto simp: pair_ok_def finalAppName_nul)

lemma length_finalAppName: "length (finalAppName v ident ts) \<le> length v + length ident + 3"
  by (simp add: finalAppName_def)

lemma length_set_app:
  "length (encode_pairs (set_app ident ts kvs)) \<le> length (encode_pairs kvs) + length ident + 18"
proof (induction kvs)
  case (Cons kv kvs)
  then show ?case
    using length_finalAppName [of "snd kv" ident ts] by (cases kv) auto
qed simp

lemma set_app_other:
  "k \<noteq> app_key \<Longrightarrow> map_of (rev (set_app ident ts kvs)) k = map_of (rev kvs) k"
  by (induction kvs) (auto simp: map_add_def split: option.splits)

lemma set_app_app_unique:
  "distinct (map fst kvs) \<Longrightarrow> map_of (rev (set_app ident ts kvs)) app_key =
     Some (case map_of (rev kvs) app_key of
             None \<Rightarrow> ident
           | Some v \<Rightarrow> finalAppName v ident ts)"
proof (induction kvs)
  case Nil
  then show ?case by simp
next
  case (Cons kv kvs)
  obtain k v where kv: "kv = (k, v)" by (cases kv)
  show ?case
  proof (cases "k = app_key")
    case True
    with Cons.prems kv have "map_of (rev kvs) app_key = None"
      by (simp add: map_of_eq_None_iff)
    with True kv show ?thesis by (simp add: map_add_def)
  next
    case False
    with Cons kv show ?thesis by (simp add: map_add_def split: option.splits)
  qed
qed

text \<open>The v3 messages \<open>rewriteStartup\<close> accepts, and what it makes of their pairs.\<close>

lemma rewriteStartup_pairs:
  assumes "parseStartupParams raw = Inr p" "ident \<noteq> []"
  obtains kvs where
    "startup_pairs (drop 8 (butlast raw)) = Inr kvs" "p = map_of (rev kvs)" "pairs_ok kvs"
    "length (encode_startup kvs) \<le> length raw"
    "rewriteStartup raw ident ts = Inr raw \<and> set_app ident ts kvs = kvs
     \<or> rewriteStartup raw ident ts = Inr (encode_startup (set_app ident ts kvs))"
proof -
  have len: "9 \<le> length raw" and hdr: "Uint32 (take 4 raw) = length raw"
    and proto: "Uint32 (take 4 (drop 4 raw)) = pgProtoV3"
    and last: "raw ! (length raw - 1) = nul"
    and body: "parse_params Map.empty (drop 8 (butlast raw)) = Inr p"
    using assms(1)
    by (auto simp: parseStartupParams_def Let_def butlast_conv_take split: if_splits)
  from body obtain kvs where
    kvs: "startup_pairs (drop 8 (butlast raw)) = Inr kvs" and p: "p = map_of (rev kvs)"
    by (cases "startup_pairs (drop 8 (butlast raw))") (auto simp: parse_params_pairs)
  have rw: "rewriteStartup raw ident ts = Inr raw \<and> set_app ident ts kvs = kvs
     \<or> rewriteStartup raw ident ts = Inr (encode_startup (set_app ident ts kvs))"
    using len hdr proto last kvs assms(2) set_app_unchanged [OF assms(2), of kvs]
    by (auto simp: rewriteStartup_def Let_def butlast_conv_take set_app_index
        split: option.splits)
  have "length (encode_pairs kvs) \<le> length (drop 8 (butlast raw))"
    using kvs by (rule length_startup_pairs)
  with len have "length (encode_startup kvs) \<le> length raw"
    by (simp add: length_encode_startup)
  with kvs p startup_pairs_ok [OF kvs] rw show thesis by (intro that)
qed


lemma rewriteStartup_encode:
  assumes "pairs_ok kvs" "fits32 kvs" "ident \<noteq> []"
  shows "rewriteStartup (encode_startup kvs) ident ts = Inr (encode_startup (set_app ident ts kvs))"
proof -
  have pairs: "startup_pairs (drop 8 (butlast (encode_startup kvs))) = Inr kvs"
    using startup_pairs_encode [OF assms(1)] body_encode [of kvs] by (simp add: butlast_conv_take)
  obtain kvs' where "startup_pairs (drop 8 (butlast (encode_startup kvs))) = Inr kvs'"
    "rewriteStartup (encode_startup kvs) ident ts = Inr (encode_startup kvs)
       \<and> set_app ident ts kvs' = kvs'
     \<or> rewriteStartup (encode_startup kvs) ident ts = Inr (encode_startup (set_app ident ts kvs'))"
    by (rule rewriteStartup_pairs [OF parseStartupParams_encode [OF assms(1,2)] assms(3)])
  with pairs show ?thesis by auto
qed

text \<open>What the receiver reads of a rewritten message.\<close>

lemma rewriteStartup_parsed:
  assumes "parseStartupParams raw = Inr p" "ident \<noteq> []" "nul \<notin> set ident"
    and "length raw + length ident + 18 < 4294967296"
  obtains out kvs where "startup_pairs (drop 8 (butlast raw)) = Inr kvs" "p = map_of (rev kvs)"
    "rewriteStartup raw ident ts = Inr out"
    "parseStartupParams out = Inr (map_of (rev (set_app ident ts kvs)))"
    "length out \<le> length raw + length ident + 18"
proof -
  from rewriteStartup_pairs [OF assms(1,2)] obtain kvs where
    kvs: "startup_pairs (drop 8 (butlast raw)) = Inr kvs" and
    p: "p = map_of (rev kvs)" and ok: "pairs_ok kvs"
    and len: "length (encode_startup kvs) \<le> length raw"
    and rw: "rewriteStartup raw ident ts = Inr raw \<and> set_app ident ts kvs = kvs
     \<or> rewriteStartup raw ident ts = Inr (encode_startup (set_app ident ts kvs))"
    by metis
  have len': "length (encode_startup (set_app ident ts kvs)) \<le> length raw + length ident + 18"
    using len length_set_app [of ident ts kvs] by (simp add: length_encode_startup)
  then have "parseStartupParams (encode_startup (set_app ident ts kvs))
      = Inr (map_of (rev (set_app ident ts kvs)))"
    using assms(4) set_app_ok [OF ok assms(3)]
    by (intro parseStartupParams_encode) (auto simp: fits32_def)
  with rw kvs p len' assms(1) show thesis
    by (auto intro!: that)
qed

text \<open>The application name the upstream is meant to see for a client that sent \<open>v\<close>.\<close>

definition attributed :: "string \<Rightarrow> bool \<Rightarrow> string option \<Rightarrow> string" where
  "attributed ident ts v =
     (case v of
        None \<Rightarrow> ident
      | Some v \<Rightarrow> if v = [] then ident else if ts then v @ '' ('' @ ident @ '')'' else v)"

lemma rewriteStartup_attributes:
  assumes "parseStartupParams raw = Inr p" "ident \<noteq> []" "nul \<notin> set ident"
    and "length raw + length ident + 18 < 4294967296"
    and "startup_pairs (drop 8 (butlast raw)) = Inr kvs" "distinct (map fst kvs)"
  shows "\<exists>out p'. rewriteStartup raw ident ts = Inr out \<and> parseStartupParams out = Inr p'
    \<and> p' app_key = Some (attributed ident ts (p app_key)) \<and> (\<forall>k. k \<noteq> app_key \<longrightarrow> p' k = p k)"
proof -
  from rewriteStartup_parsed [OF assms(1-4)] assms(5) obtain out where
    p: "p = map_of (rev kvs)" and out: "rewriteStartup raw ident ts = Inr out"
    "parseStartupParams out = Inr (map_of (rev (set_app ident ts kvs)))"
    by (metis sum.inject(2))
  have "map_of (rev (set_app ident ts kvs)) app_key = Some (attributed ident ts (p app_key))"
    using set_app_app_unique [OF assms(6), of ident ts] assms(2) p
    by (simp add: finalAppName_def attributed_def split: option.splits)
  with out p set_app_other [of _ ident ts kvs] show ?thesis by auto
qed

subsection \<open>Properties\<close>

text \<open>C11: on the wire form of any list of well-formed parameters, rewriting implements the
  abstract operation on the list: the first application name is replaced by its attributed
  form, or one is appended; every other pair stays in place and the message is again a
  well-formed wire form with a correct length field.\<close>

theorem rewriteStartup_refines:
  assumes "pairs_ok kvs" "fits32 kvs" "ident \<noteq> []"
  shows "rewriteStartup (encode_startup kvs) ident ts = Inr (encode_startup (set_app ident ts kvs))"
  using assms by (rule rewriteStartup_encode)

theorem rewriteStartup_refines_witness:
  "rewriteStartup (encode_startup [(''user'', ''root''), (app_key, ''psql'')]) ''amit'' True
   = Inr (encode_startup [(''user'', ''root''), (app_key, ''psql (amit)'')])"
  using rewriteStartup_refines [of "[(''user'', ''root''), (app_key, ''psql'')]" "''amit''" True]
  by (simp add: pair_ok_def fits32_def length_encode_startup finalAppName_def)

text \<open>Whatever v3 message a client sends, rewriting it with an identity succeeds, changes
  no parameter but the application name as the receiver will read them, and grows the message
  by at most the identity and 18 bytes.\<close>

theorem rewriteStartup_effect:
  assumes "parseStartupParams raw = Inr p" "ident \<noteq> []" "nul \<notin> set ident"
    and "length raw + length ident + 18 < 4294967296"
  shows "\<exists>out p'. rewriteStartup raw ident ts = Inr out \<and> parseStartupParams out = Inr p'
    \<and> (\<forall>k. k \<noteq> app_key \<longrightarrow> p' k = p k) \<and> length out \<le> length raw + length ident + 18"
proof -
  from rewriteStartup_parsed [OF assms] obtain out kvs where "p = map_of (rev kvs)"
    "rewriteStartup raw ident ts = Inr out"
    "parseStartupParams out = Inr (map_of (rev (set_app ident ts kvs)))"
    "length out \<le> length raw + length ident + 18" by metis
  with set_app_other [of _ ident ts kvs] show ?thesis by auto
qed

theorem rewriteStartup_effect_witness:
  "\<exists>out p'. rewriteStartup (encode_startup [(''user'', ''root'')]) ''amit'' True = Inr out
    \<and> parseStartupParams out = Inr p' \<and> (\<forall>k. k \<noteq> app_key \<longrightarrow> p' k = [''user'' \<mapsto> ''root''] k)
    \<and> length out \<le> length (encode_startup [(''user'', ''root'')]) + length ''amit'' + 18"
  by (rule rewriteStartup_effect, simp add: parseStartupParams_encode pair_ok_def fits32_def
      length_encode_startup fun_eq_iff) (simp_all add: length_encode_startup)

text \<open>Attribution reaches the upstream: when the client's parameters have distinct names,
  the application name the receiver reads is the identity itself if the client sent none, and
  otherwise the client's name completed by the attribution rule, so a tailnet client's name
  always carries the identity.\<close>

theorem rewriteStartup_identity:
  assumes "parseStartupParams raw = Inr p" "ident \<noteq> []" "nul \<notin> set ident"
    and "length raw + length ident + 18 < 4294967296"
    and "startup_pairs (drop 8 (butlast raw)) = Inr kvs" "distinct (map fst kvs)"
  shows "\<exists>out p'. rewriteStartup raw ident ts = Inr out \<and> parseStartupParams out = Inr p'
    \<and> p' app_key = Some (case p app_key of
        None \<Rightarrow> ident
      | Some v \<Rightarrow> if v = [] then ident
                  else if ts then v @ '' ('' @ ident @ '')'' else v)"
  using rewriteStartup_attributes [OF assms, of ts] by (auto simp: attributed_def)

theorem rewriteStartup_identity_witness:
  "\<exists>out p'. rewriteStartup (encode_startup [(app_key, ''psql'')]) ''amit'' True = Inr out
    \<and> parseStartupParams out = Inr p' \<and> p' app_key = Some ''psql (amit)''"
proof -
  let ?kvs = "[(app_key, ''psql'')]"
  have ok: "pairs_ok ?kvs" "fits32 ?kvs"
    by (simp_all add: pair_ok_def fits32_def length_encode_startup)
  have body: "startup_pairs (drop 8 (butlast (encode_startup ?kvs))) = Inr ?kvs"
    using startup_pairs_encode [OF ok(1)] body_encode [of ?kvs] by (simp add: butlast_conv_take)
  show ?thesis
    using rewriteStartup_identity [OF parseStartupParams_encode [OF ok] _ _ _ body,
        where ident = "''amit''" and ts = True]
    by (simp add: length_encode_startup)
qed

text \<open>C40: the first-match rewriting can be evaded: a client that sends the application name
  twice has only the first one attributed, and the receiver, reading later values last as the
  gateway's own parser does, sees the second one without the identity.\<close>

theorem duplicate_app_name_evades:
  assumes "pair_ok (''user'', u)" "pair_ok (app_key, v)" "pair_ok (app_key, w)"
    and "ident \<noteq> []" "nul \<notin> set ident"
    and "length u + length v + length w + length ident < 1000000"
  shows "\<exists>out p'. rewriteStartup
      (encode_startup [(''user'', u), (app_key, v), (app_key, w)]) ident True = Inr out
    \<and> parseStartupParams out = Inr p' \<and> p' app_key = Some w"
proof -
  let ?kvs = "[(''user'', u), (app_key, v), (app_key, w)]"
  let ?kvs' = "[(''user'', u), (app_key, finalAppName v ident True), (app_key, w)]"
  have "rewriteStartup (encode_startup ?kvs) ident True = Inr (encode_startup (set_app ident True ?kvs))"
    using assms by (intro rewriteStartup_encode) (auto simp: fits32_def length_encode_startup)
  moreover have "set_app ident True ?kvs = ?kvs'" by simp
  moreover have "parseStartupParams (encode_startup ?kvs') = Inr (map_of (rev ?kvs'))"
    using assms finalAppName_nul [of v ident True] length_finalAppName [of v ident True]
    by (intro parseStartupParams_encode) (auto simp: fits32_def length_encode_startup pair_ok_def)
  moreover have "map_of (rev ?kvs') app_key = Some w" by simp
  ultimately show ?thesis by metis
qed

theorem duplicate_app_name_evades_witness:
  "\<exists>out p'. rewriteStartup (encode_startup
      [(''user'', ''root''), (app_key, ''psql''), (app_key, ''x'')]) ''amit'' True = Inr out
    \<and> parseStartupParams out = Inr p' \<and> p' app_key = Some ''x''"
  by (rule duplicate_app_name_evades) (simp_all add: pair_ok_def)


subsection \<open>Reading off the connection\<close>

text \<open>A complete message: its length field is its length, within the accepted bounds.\<close>

definition framed :: "bytes \<Rightarrow> bool" where
  "framed raw = (8 \<le> length raw \<and> length raw \<le> 65536 \<and> Uint32 (take 4 raw) = length raw)"

lemma Uint32_take_4: "Uint32 (take 4 bs) = Uint32 bs"
  by (simp add: Uint32_def)

lemma readWithPrefix_iff:
  assumes "4 \<le> length prefix" "length prefix \<le> 8"
  shows "readStartupMessageWithPrefix r prefix = Inr (raw, r') \<longleftrightarrow> framed raw \<and> prefix @ r = raw @ r'"
proof
  assume "readStartupMessageWithPrefix r prefix = Inr (raw, r')"
  with assms obtain bs where
    len: "8 \<le> Uint32 (take 4 prefix)" "Uint32 (take 4 prefix) \<le> 65536"
    and bs: "ReadFull (Uint32 (take 4 prefix) - length prefix) r = Some (bs, r')"
    and raw: "raw = prefix @ bs"
    by (auto simp: readStartupMessageWithPrefix_def Let_def split: if_splits option.splits)
  from ReadFull_SomeD [OF bs] raw len assms show "framed raw \<and> prefix @ r = raw @ r'"
    by (auto simp: framed_def)
next
  assume fr: "framed raw \<and> prefix @ r = raw @ r'"
  then have "length prefix \<le> length raw"
    using assms by (simp add: framed_def)
  with fr obtain bs where bs: "raw = prefix @ bs" "r = bs @ r'"
    by (auto simp: append_eq_append_conv2)
  with fr assms show "readStartupMessageWithPrefix r prefix = Inr (raw, r')"
    by (auto simp: readStartupMessageWithPrefix_def framed_def Let_def)
qed

lemma readStartupMessage_iff:
  "readStartupMessage r = Inr (raw, r') \<longleftrightarrow> framed raw \<and> r = raw @ r'"
proof (cases "ReadFull 4 r")
  case None
  then have "length r < 4" by (simp add: ReadFull_None_iff)
  with None show ?thesis by (auto simp: readStartupMessage_def framed_def)
next
  case (Some p)
  obtain lenBuf rest where p: "p = (lenBuf, rest)" by (cases p)
  with Some have "length lenBuf = 4" "r = lenBuf @ rest"
    using ReadFull_SomeD [of 4 r lenBuf rest] by auto
  with Some p show ?thesis
    by (simp add: readStartupMessage_def readWithPrefix_iff)
qed

text \<open>C29: reading a startup message is exact framing: it succeeds with a message and the
  rest of the stream exactly when the stream is that message, between 8 and 65536 bytes long
  and of the length its header says, followed by that rest. Reading it in one go and reading
  it after the 8 bytes already consumed to detect the protocol are the same.\<close>

theorem readStartupMessage_exact:
  "(readStartupMessage r = Inr (raw, r') \<longleftrightarrow> framed raw \<and> r = raw @ r')
   \<and> (readStartupMessageWithPrefix (drop 8 s) (take 8 s) = Inr (raw, r')
        \<longleftrightarrow> 4 \<le> length s \<and> framed raw \<and> s = raw @ r')"
proof (cases "4 \<le> length s")
  case True
  then have "4 \<le> length (take 8 s)" "length (take 8 s) \<le> 8" by auto
  from readWithPrefix_iff [OF this, of "drop 8 s"] True show ?thesis
    by (simp add: readStartupMessage_iff)
next
  case False
  then show ?thesis
    by (auto simp: readStartupMessage_iff readStartupMessageWithPrefix_def)
qed

text \<open>A message read off the connection that opened as a plaintext v3 startup is
  rewritten or refused for its content only: no length error is possible, and an error is
  reported exactly when an identity is to be injected and the message is not NUL-terminated or
  its pairs do not parse.\<close>

theorem plaintext_rewrite_errors:
  assumes "readStartupMessageWithPrefix (drop 8 s) (take 8 s) = Inr (raw, r')"
    and "isPlaintextStartup (take 8 s)"
  shows "(\<exists>e. rewriteStartup raw ident ts = Inl e) \<longleftrightarrow>
    ident \<noteq> [] \<and> (length raw = 8 \<or> last raw \<noteq> nul
      \<or> (\<exists>e. startup_pairs (drop 8 (butlast raw)) = Inl e))"
proof -
  have "4 \<le> length s"
    using assms(1) by (auto simp: readStartupMessageWithPrefix_def split: if_splits)
  then have "framed raw" and s: "s = raw @ r'"
    using assms(1) readWithPrefix_iff [of "take 8 s" "drop 8 s" raw r'] by auto
  then have len: "8 \<le> length raw" "Uint32 (take 4 raw) = length raw"
    by (auto simp: framed_def)
  have "Uint32 (take 4 (drop 4 (take 8 s))) = pgProtoV3"
    using assms(2) by (simp add: isPlaintextStartup_def Let_def split: if_splits)
  moreover have "take 4 (drop 4 (take 8 s)) = take 4 (drop 4 raw)"
    using len(1) s by (simp add: drop_take)
  ultimately have proto: "Uint32 (take 4 (drop 4 raw)) = pgProtoV3" by simp
  have last: "raw ! (length raw - Suc 0) = last raw"
    using len(1) by (subst last_conv_nth) auto
  show ?thesis
    using len proto last
    by (auto simp: rewriteStartup_def Let_def butlast_conv_take bind_result_Inl_iff
        split: option.splits)
qed

theorem plaintext_rewrite_errors_witness:
  "(\<exists>e. rewriteStartup [CHR 0x00, CHR 0x00, CHR 0x00, CHR 0x08, CHR 0x00, CHR 0x03, CHR 0x00, CHR 0x00]
          ''amit'' True = Inl e)"
proof -
  let ?s = "[CHR 0x00, CHR 0x00, CHR 0x00, CHR 0x08, CHR 0x00, CHR 0x03, CHR 0x00, CHR 0x00]"
  have "readStartupMessageWithPrefix (drop 8 ?s) (take 8 ?s) = Inr (?s, [])" by code_simp
  moreover have "isPlaintextStartup (take 8 ?s)" by code_simp
  ultimately show ?thesis
    using plaintext_rewrite_errors [of ?s ?s "[]" "''amit''" True] by simp
qed

end
