(* ===== verification/Splice_Model.thy ===== *)
theory Splice_Model
  imports Prelude "HOL-Library.Sublist"
begin

text \<open>
  The two-way copy every proxy of the gateway ends in (\<^verbatim>\<open>src/tcpproxy.go\<close>,
  \<^verbatim>\<open>src/httpproxy.go\<close>, \<^verbatim>\<open>src/pgproxy.go\<close>,
  \<^verbatim>\<open>src/credentials-manager.go\<close>): two goroutines run \<^verbatim>\<open>io.Copy\<close>, each
  sends its result on a channel when it ends, and the handler returns after the first result,
  which closes both connections. The channel capacity is 1, or 2 in the TCP proxy; it is a
  parameter of the steps. A result is \<open>True\<close> for an error.
\<close>

datatype copier = Copying | Sending bool | Finished

text \<open>What a peer does once it has sent its bytes: it closes its connection (or its sending
  side), its connection fails, or it stays connected and silent for ever. A connection that
  fails may do so before its bytes have been read.\<close>

datatype stream_end = Eof | Fails | Idle

record splice =
  client_in :: bytes       \<comment> \<open>what the client will still send\<close>
  client_end :: stream_end
  upstream_in :: bytes     \<comment> \<open>what the upstream will still send\<close>
  upstream_end :: stream_end
  to_upstream :: bytes     \<comment> \<open>delivered to the upstream\<close>
  to_client :: bytes       \<comment> \<open>delivered to the client\<close>
  up :: copier             \<comment> \<open>\<^verbatim>\<open>io.Copy(dst, src)\<close>\<close>
  down :: copier           \<comment> \<open>\<^verbatim>\<open>io.Copy(src, dst)\<close>\<close>
  errc :: "bool list"      \<comment> \<open>results buffered in the channel\<close>
  first_result :: "bool option"  \<comment> \<open>what the handler received\<close>
  closed :: bool           \<comment> \<open>the handler has returned and its deferred closes have run\<close>

definition splice_init :: "bytes \<Rightarrow> stream_end \<Rightarrow> bytes \<Rightarrow> stream_end \<Rightarrow> splice" where
  "splice_init c ce u ue = \<lparr>client_in = c, client_end = ce, upstream_in = u, upstream_end = ue,
     to_upstream = [], to_client = [], up = Copying, down = Copying, errc = [],
     first_result = None, closed = False\<rparr>"

text \<open>
  A copier moves a non-empty chunk while the connections are open. While they are open it ends
  only for a cause on one of them: cleanly at the end of its input; with an error when the
  connection it reads from fails, or when it has bytes to write and the other peer has closed
  or its connection fails. Once the handler has closed the connections it ends with an error.
  So a copier whose peer stays silent is blocked until the handler closes. Both peers are taken
  to keep reading: a write completes or fails. A send blocks while the channel is full; on an
  unbuffered channel it completes only together with the handler's one receive.
\<close>

inductive splice_step :: "nat \<Rightarrow> splice \<Rightarrow> splice \<Rightarrow> bool" for cap where
  copy_up: "up s = Copying \<Longrightarrow> \<not> closed s \<Longrightarrow> client_in s = chunk @ rest \<Longrightarrow>
    chunk \<noteq> [] \<Longrightarrow>
    splice_step cap s (s\<lparr>client_in := rest, to_upstream := to_upstream s @ chunk\<rparr>)"
| copy_down: "down s = Copying \<Longrightarrow> \<not> closed s \<Longrightarrow> upstream_in s = chunk @ rest \<Longrightarrow>
    chunk \<noteq> [] \<Longrightarrow>
    splice_step cap s (s\<lparr>upstream_in := rest, to_client := to_client s @ chunk\<rparr>)"
| eof_up: "up s = Copying \<Longrightarrow> \<not> closed s \<Longrightarrow> client_in s = [] \<Longrightarrow> client_end s = Eof \<Longrightarrow>
    splice_step cap s (s\<lparr>up := Sending False\<rparr>)"
| eof_down: "down s = Copying \<Longrightarrow> \<not> closed s \<Longrightarrow> upstream_in s = [] \<Longrightarrow> upstream_end s = Eof \<Longrightarrow>
    splice_step cap s (s\<lparr>down := Sending False\<rparr>)"
| fail_up: "up s = Copying \<Longrightarrow> \<not> closed s \<Longrightarrow>
    client_end s = Fails \<or> client_in s \<noteq> [] \<and> upstream_end s \<noteq> Idle \<Longrightarrow>
    splice_step cap s (s\<lparr>up := Sending True\<rparr>)"
| fail_down: "down s = Copying \<Longrightarrow> \<not> closed s \<Longrightarrow>
    upstream_end s = Fails \<or> upstream_in s \<noteq> [] \<and> client_end s \<noteq> Idle \<Longrightarrow>
    splice_step cap s (s\<lparr>down := Sending True\<rparr>)"
| closed_up: "up s = Copying \<Longrightarrow> closed s \<Longrightarrow> splice_step cap s (s\<lparr>up := Sending True\<rparr>)"
| closed_down: "down s = Copying \<Longrightarrow> closed s \<Longrightarrow> splice_step cap s (s\<lparr>down := Sending True\<rparr>)"
| send_up: "up s = Sending b \<Longrightarrow> length (errc s) < cap \<Longrightarrow>
    splice_step cap s (s\<lparr>up := Finished, errc := errc s @ [b]\<rparr>)"
| send_down: "down s = Sending b \<Longrightarrow> length (errc s) < cap \<Longrightarrow>
    splice_step cap s (s\<lparr>down := Finished, errc := errc s @ [b]\<rparr>)"
| meet_up: "cap = 0 \<Longrightarrow> up s = Sending b \<Longrightarrow> first_result s = None \<Longrightarrow>
    splice_step cap s (s\<lparr>up := Finished, first_result := Some b\<rparr>)"
| meet_down: "cap = 0 \<Longrightarrow> down s = Sending b \<Longrightarrow> first_result s = None \<Longrightarrow>
    splice_step cap s (s\<lparr>down := Finished, first_result := Some b\<rparr>)"
| receive: "first_result s = None \<Longrightarrow> errc s = b # rest \<Longrightarrow>
    splice_step cap s (s\<lparr>errc := rest, first_result := Some b\<rparr>)"
| close: "first_result s \<noteq> None \<Longrightarrow> \<not> closed s \<Longrightarrow> splice_step cap s (s\<lparr>closed := True\<rparr>)"

inductive splice_reach ::
  "nat \<Rightarrow> bytes \<Rightarrow> stream_end \<Rightarrow> bytes \<Rightarrow> stream_end \<Rightarrow> splice \<Rightarrow> bool" for cap c ce u ue where
  init: "splice_reach cap c ce u ue (splice_init c ce u ue)"
| step: "splice_reach cap c ce u ue s \<Longrightarrow> splice_step cap s t \<Longrightarrow> splice_reach cap c ce u ue t"

definition finished_count :: "splice \<Rightarrow> nat" where
  "finished_count s = (if up s = Finished then 1 else 0) + (if down s = Finished then 1 else 0)"

definition splice_inv :: "bytes \<Rightarrow> stream_end \<Rightarrow> bytes \<Rightarrow> stream_end \<Rightarrow> splice \<Rightarrow> bool" where
  "splice_inv c ce u ue s =
     (to_upstream s @ client_in s = c \<and> to_client s @ upstream_in s = u
      \<and> client_end s = ce \<and> upstream_end s = ue
      \<and> finished_count s = length (errc s) + (if first_result s = None then 0 else 1)
      \<and> (up s = Sending False \<longrightarrow> client_in s = [])
      \<and> (down s = Sending False \<longrightarrow> upstream_in s = [])
      \<and> (False \<in> set (errc s) \<or> first_result s = Some False
          \<longrightarrow> client_in s = [] \<or> upstream_in s = []))"

lemma splice_inv_init: "splice_inv c ce u ue (splice_init c ce u ue)"
  by (simp add: splice_inv_def splice_init_def finished_count_def)

lemma splice_step_inv: "splice_step cap s t \<Longrightarrow> splice_inv c ce u ue s \<Longrightarrow> splice_inv c ce u ue t"
  by (induction rule: splice_step.induct)
    (auto simp: splice_inv_def finished_count_def split: if_splits)

lemma splice_reach_inv: "splice_reach cap c ce u ue s \<Longrightarrow> splice_inv c ce u ue s"
  by (induction rule: splice_reach.induct) (auto intro: splice_inv_init splice_step_inv)

text \<open>The splice is a byte pipe: at every moment what reached each side is an unmodified,
  in-order prefix of what the other side sent, and a session that ends without an error has
  delivered everything one of the two sides sent.\<close>

lemma splice_pipe:
  assumes "splice_reach cap c ce u ue s"
  shows "prefix (to_upstream s) c \<and> prefix (to_client s) u
    \<and> (first_result s = Some False \<longrightarrow> to_upstream s = c \<or> to_client s = u)"
proof -
  have inv: "splice_inv c ce u ue s"
    using assms by (rule splice_reach_inv)
  then have "to_upstream s @ client_in s = c" "to_client s @ upstream_in s = u"
    by (simp_all add: splice_inv_def)
  moreover have "first_result s = Some False \<Longrightarrow> client_in s = [] \<or> upstream_in s = []"
    using inv by (simp add: splice_inv_def)
  ultimately show ?thesis by (auto simp: prefix_def)
qed

lemma splice_example:
  "splice_reach 1 ''ab'' Eof ''x'' Idle ((splice_init ''ab'' Eof ''x'' Idle)
     \<lparr>client_in := [], to_upstream := ''ab'', up := Finished, errc := [], first_result := Some False\<rparr>)"
proof -
  let ?s0 = "splice_init ''ab'' Eof ''x'' Idle"
  let ?s1 = "?s0\<lparr>client_in := [], to_upstream := to_upstream ?s0 @ ''ab''\<rparr>"
  let ?s2 = "?s1\<lparr>up := Sending False\<rparr>"
  let ?s3 = "?s2\<lparr>up := Finished, errc := errc ?s2 @ [False]\<rparr>"
  let ?s4 = "?s3\<lparr>errc := [], first_result := Some False\<rparr>"
  have "splice_step 1 ?s0 ?s1"
    by (rule copy_up) (simp_all add: splice_init_def)
  moreover have "splice_step 1 ?s1 ?s2" by (rule eof_up) (simp_all add: splice_init_def)
  moreover have "splice_step 1 ?s2 ?s3" by (rule send_up) (simp_all add: splice_init_def)
  moreover have "splice_step 1 ?s3 ?s4" by (rule receive) (simp_all add: splice_init_def)
  ultimately have "splice_reach 1 ''ab'' Eof ''x'' Idle ?s4"
    by (meson splice_reach.intros)
  then show ?thesis by (simp add: splice_init_def)
qed

subsection \<open>No goroutine is left behind\<close>

text \<open>The state in which everything is over: the handler has returned with both connections
  closed, and both goroutines have ended.\<close>

definition torn_down :: "splice \<Rightarrow> bool" where
  "torn_down s = (up s = Finished \<and> down s = Finished \<and> first_result s \<noteq> None \<and> closed s)"

text \<open>A session in which nothing is wrong and nothing happens: everything sent is delivered and
  both copiers wait for peers that stay silent.\<close>

definition waiting :: "splice \<Rightarrow> bool" where
  "waiting s = (up s = Copying \<and> down s = Copying \<and> client_in s = [] \<and> upstream_in s = []
     \<and> client_end s = Idle \<and> upstream_end s = Idle \<and> first_result s = None \<and> \<not> closed s)"

text \<open>A copier that has a step of its own: it copies and is not blocked on a silent peer.\<close>

lemma copier_moves:
  "up s = Copying \<Longrightarrow> closed s \<or> client_in s \<noteq> [] \<or> client_end s \<noteq> Idle \<Longrightarrow> \<exists>t. splice_step cap s t"
  "down s = Copying \<Longrightarrow> closed s \<or> upstream_in s \<noteq> [] \<or> upstream_end s \<noteq> Idle \<Longrightarrow>
     \<exists>t. splice_step cap s t"
proof -
  assume u: "up s = Copying" "closed s \<or> client_in s \<noteq> [] \<or> client_end s \<noteq> Idle"
  show "\<exists>t. splice_step cap s t"
  proof (cases "closed s \<or> client_in s \<noteq> []")
    case True
    with u(1) closed_up [of s cap] copy_up [of s "client_in s" "[]" cap] show ?thesis by auto
  next
    case False
    with u eof_up [of s cap] fail_up [of s cap] show ?thesis by (cases "client_end s") auto
  qed
next
  assume d: "down s = Copying" "closed s \<or> upstream_in s \<noteq> [] \<or> upstream_end s \<noteq> Idle"
  show "\<exists>t. splice_step cap s t"
  proof (cases "closed s \<or> upstream_in s \<noteq> []")
    case True
    with d(1) closed_down [of s cap] copy_down [of s "upstream_in s" "[]" cap] show ?thesis by auto
  next
    case False
    with d eof_down [of s cap] fail_down [of s cap] show ?thesis by (cases "upstream_end s") auto
  qed
qed

lemma splice_not_stuck:
  assumes inv: "splice_inv c ce u ue s" and cap: "1 \<le> cap"
    and stuck: "\<nexists>t. splice_step cap s t"
  shows "torn_down s \<or> waiting s"
proof -
  have count: "finished_count s = length (errc s) + (if first_result s = None then 0 else 1)"
    using inv by (simp add: splice_inv_def)
  have rec: "first_result s = None \<Longrightarrow> errc s = []"
    using stuck receive [of s _ _ cap] by (cases "errc s") auto
  have full: "up s = Sending b \<or> down s = Sending b \<Longrightarrow> errc s \<noteq> []" for b
    using stuck cap send_up [of s b cap] send_down [of s b cap] by (cases "errc s") auto
  have cl: "first_result s \<noteq> None \<Longrightarrow> closed s" using stuck close [of s cap] by blast
  have idle: "up s = Copying \<Longrightarrow> \<not> closed s \<and> client_in s = [] \<and> client_end s = Idle"
    "down s = Copying \<Longrightarrow> \<not> closed s \<and> upstream_in s = [] \<and> upstream_end s = Idle"
    using stuck copier_moves by blast+
  show ?thesis
  proof (cases "first_result s")
    case None
    with rec count have "up s \<noteq> Finished" "down s \<noteq> Finished"
      by (auto simp: finished_count_def split: if_splits)
    moreover have "up s \<noteq> Sending b" "down s \<noteq> Sending b" for b
      using full [of b] rec None by auto
    ultimately have "up s = Copying" "down s = Copying" by (meson copier.exhaust)+
    with idle None show ?thesis by (simp add: waiting_def)
  next
    case (Some r)
    then have "closed s" using cl by simp
    then have nc: "up s \<noteq> Copying" "down s \<noteq> Copying" using idle by blast+
    have "up s = Finished \<and> down s = Finished"
    proof (rule ccontr)
      assume "\<not> (up s = Finished \<and> down s = Finished)"
      with nc obtain b where "up s = Sending b \<or> down s = Sending b" by (meson copier.exhaust)
      moreover from this have "finished_count s \<le> 1" by (auto simp: finished_count_def)
      ultimately show False using full count Some by (cases "errc s") auto
    qed
    with Some \<open>closed s\<close> show ?thesis by (simp add: torn_down_def)
  qed
qed

text \<open>C21: no goroutine leaks and no session hangs on the result channel: with a capacity of at
  least 1, the only reachable states without a further step are the one in which the handler
  has returned, both connections are closed and both copiers have finished, and, when neither
  peer ever ends its stream, the one in which all bytes are delivered and both copiers wait
  for the silent peers. In particular a copier blocked on a silent peer is always released by
  the handler's closes once the other one has ended.\<close>

theorem splice_no_leak:
  assumes "splice_reach cap c ce u ue s" "1 \<le> cap" "\<nexists>t. splice_step cap s t"
  shows "torn_down s
    \<or> ce = Idle \<and> ue = Idle \<and> waiting s \<and> to_upstream s = c \<and> to_client s = u"
proof -
  from splice_not_stuck [OF splice_reach_inv [OF assms(1)] assms(2,3)] splice_reach_inv [OF assms(1)]
  show ?thesis by (auto simp: waiting_def splice_inv_def)
qed

lemma splice_no_step_final:
  "up s = Finished \<Longrightarrow> down s = Finished \<Longrightarrow> first_result s = Some r \<Longrightarrow> closed s \<Longrightarrow>
   \<not> splice_step cap s t"
  by (auto elim: splice_step.cases)

lemma splice_example_final:
  "splice_reach 1 ''ab'' Eof ''x'' Idle ((splice_init ''ab'' Eof ''x'' Idle)
     \<lparr>client_in := [], to_upstream := ''ab'', up := Finished, errc := [True],
      first_result := Some False, closed := True, down := Finished\<rparr>)"
proof -
  let ?s4 = "(splice_init ''ab'' Eof ''x'' Idle)
     \<lparr>client_in := [], to_upstream := ''ab'', up := Finished, errc := [], first_result := Some False\<rparr>"
  let ?s4c = "?s4\<lparr>closed := True\<rparr>"
  let ?s5 = "?s4c\<lparr>down := Sending True\<rparr>"
  let ?s6 = "?s5\<lparr>down := Finished, errc := errc ?s5 @ [True]\<rparr>"
  have "splice_step 1 ?s4 ?s4c" by (rule close) (simp_all add: splice_init_def)
  moreover have "splice_step 1 ?s4c ?s5" by (rule closed_down) (simp_all add: splice_init_def)
  moreover have "splice_step 1 ?s5 ?s6" by (rule send_down) (simp_all add: splice_init_def)
  ultimately have "splice_reach 1 ''ab'' Eof ''x'' Idle ?s6"
    using splice_example by (meson splice_reach.step)
  then show ?thesis by (simp add: splice_init_def)
qed

theorem splice_no_leak_witness:
  "torn_down ((splice_init ''ab'' Eof ''x'' Idle)
     \<lparr>client_in := [], to_upstream := ''ab'', up := Finished, errc := [True],
      first_result := Some False, closed := True, down := Finished\<rparr>)"
proof -
  have "\<nexists>t. splice_step 1 ((splice_init ''ab'' Eof ''x'' Idle)
     \<lparr>client_in := [], to_upstream := ''ab'', up := Finished, errc := [True],
      first_result := Some False, closed := True, down := Finished\<rparr>) t"
    using splice_no_step_final [of "(splice_init ''ab'' Eof ''x'' Idle)
     \<lparr>client_in := [], to_upstream := ''ab'', up := Finished, errc := [True],
      first_result := Some False, closed := True, down := Finished\<rparr>" False 1] by simp
  from splice_no_leak [OF splice_example_final _ this] show ?thesis by simp
qed

subsection \<open>Every run ends\<close>

text \<open>Every run, however its steps are chosen, comes to a state with \<open>P\<close>.\<close>

inductive inevitable :: "('s \<Rightarrow> 's \<Rightarrow> bool) \<Rightarrow> ('s \<Rightarrow> bool) \<Rightarrow> 's \<Rightarrow> bool" for r P where
  now: "P s \<Longrightarrow> inevitable r P s"
| later: "r s t \<Longrightarrow> (\<And>t. r s t \<Longrightarrow> inevitable r P t) \<Longrightarrow> inevitable r P s"

lemma inevitable_possible: "inevitable r P s \<Longrightarrow> \<exists>t. r\<^sup>*\<^sup>* s t \<and> P t"
  by (induction rule: inevitable.induct) (blast intro: converse_rtranclp_into_rtranclp)+

lemma inevitable_measure:
  fixes m :: "'s \<Rightarrow> nat"
  assumes "\<And>s t. r s t \<Longrightarrow> m t < m s"
    and "\<And>s t. I s \<Longrightarrow> r s t \<Longrightarrow> I t"
    and "\<And>s. I s \<Longrightarrow> \<nexists>t. r s t \<Longrightarrow> P s"
  shows "I s \<Longrightarrow> inevitable r P s"
proof (induction "m s" arbitrary: s rule: less_induct)
  case less
  show ?case
  proof (cases "\<exists>t. r s t")
    case True
    then obtain t where "r s t" by blast
    then show ?thesis using less assms(1,2) by (blast intro: later)
  next
    case False
    with less.prems assms(3) show ?thesis by (blast intro: now)
  qed
qed

fun copier_rank :: "copier \<Rightarrow> nat" where
  "copier_rank Copying = 2"
| "copier_rank (Sending b) = 1"
| "copier_rank Finished = 0"

definition splice_rank :: "splice \<Rightarrow> nat" where
  "splice_rank s = length (client_in s) + length (upstream_in s)
     + copier_rank (up s) + copier_rank (down s) + (if first_result s = None then 1 else 0) + (if closed s then 0 else 1)"

lemma splice_step_rank: "splice_step cap s t \<Longrightarrow> splice_rank t < splice_rank s"
  by (induction rule: splice_step.induct) (auto simp: splice_rank_def)

lemma splice_reach_star:
  "(splice_step cap)\<^sup>*\<^sup>* (splice_init c ce u ue) t \<Longrightarrow> splice_reach cap c ce u ue t"
  by (induction rule: rtranclp_induct) (auto intro: splice_reach.intros)

text \<open>Silent peers never end a session, and an unbuffered channel strands the second copier.\<close>

definition both_copying :: "splice \<Rightarrow> bool" where
  "both_copying s = (client_end s = Idle \<and> upstream_end s = Idle \<and> up s = Copying
     \<and> down s = Copying \<and> errc s = [] \<and> first_result s = None \<and> \<not> closed s)"

lemma idle_never_ends: "splice_reach cap c Idle u Idle s \<Longrightarrow> both_copying s"
proof (induction rule: splice_reach.induct)
  case init
  then show ?case by (simp add: both_copying_def splice_init_def)
next
  case (step s t)
  from step(2,3) show ?case by cases (auto simp: both_copying_def)
qed

lemma unbuffered_errc: "splice_reach 0 c ce u ue s \<Longrightarrow> errc s = []"
proof (induction rule: splice_reach.induct)
  case init
  then show ?case by (simp add: splice_init_def)
next
  case (step s t)
  from step(2,3) show ?case by cases auto
qed

lemma unbuffered_strands: "splice_reach 0 c ce u ue s \<Longrightarrow> \<not> torn_down s"
  using splice_reach_inv [of 0 c ce u ue s] unbuffered_errc [of c ce u ue s]
  by (auto simp: splice_inv_def torn_down_def finished_count_def)

text \<open>C22: a session ends, whatever the order of its steps, exactly because of its buffered
  channel and its closes: every run from the start of the splice comes to the state in which
  the handler has returned, both connections are closed and both goroutines have ended, if and
  only if the channel is buffered and at least one of the two peers ends its stream (both
  being taken to keep reading what they are sent).\<close>

theorem splice_terminates:
  "inevitable (splice_step cap) torn_down (splice_init c ce u ue)
   \<longleftrightarrow> 1 \<le> cap \<and> \<not> (ce = Idle \<and> ue = Idle)"
proof
  assume "inevitable (splice_step cap) torn_down (splice_init c ce u ue)"
  from inevitable_possible [OF this] obtain t where
    t: "splice_reach cap c ce u ue t" "torn_down t" by (blast dest: splice_reach_star)
  have "cap \<noteq> 0" using t unbuffered_strands by metis
  moreover have "\<not> (ce = Idle \<and> ue = Idle)"
    using t idle_never_ends [of cap c u t] by (auto simp: torn_down_def both_copying_def)
  ultimately show "1 \<le> cap \<and> \<not> (ce = Idle \<and> ue = Idle)" by auto
next
  assume live: "1 \<le> cap \<and> \<not> (ce = Idle \<and> ue = Idle)"
  show "inevitable (splice_step cap) torn_down (splice_init c ce u ue)"
  proof (rule inevitable_measure [where m = splice_rank and I = "splice_reach cap c ce u ue"])
    fix s assume s: "splice_reach cap c ce u ue s" "\<nexists>t. splice_step cap s t"
    from splice_not_stuck [OF splice_reach_inv [OF s(1)] _ s(2)] splice_reach_inv [OF s(1)] live
    show "torn_down s" by (auto simp: waiting_def splice_inv_def)
  qed (auto intro: splice_step_rank splice_reach.intros)
qed

end
