(* ===== verification/Trace.thy ===== *)
theory Trace
  imports Prelude "HOL-Library.Multiset"
begin

text \<open>
  What a connection handler does to the outside world, as a list of events in program order,
  deferred calls included at the end in last-in first-out order. The counters published over
  expvar are the fold of the events of all sessions. The locale \<open>counted_handler\<close> is the
  contract between a handler and its \<open>sessions_active\<close> gauge.
\<close>

text \<open>The configuration of an authenticated Postgres connection: the URL it starts from, and the
  fields the source overrides.\<close>

record pg_connect =
  cc_url :: string
  cc_User :: string
  cc_Password :: string
  cc_Database :: string
  cc_ServerName :: string
  cc_RootCAs :: bytes
  cc_RuntimeParams :: "string \<Rightarrow> string option"

datatype event =
    ErrorAdd string                \<comment> \<open>\<^verbatim>\<open>errors.Add(key, 1)\<close>\<close>
  | StartedAdd                     \<comment> \<open>\<^verbatim>\<open>startedSessions.Add(1)\<close>\<close>
  | ActiveAdd int                  \<comment> \<open>\<^verbatim>\<open>activeSessions.Add(d)\<close>\<close>
  | DialTCP string                 \<comment> \<open>a connection attempt to an upstream\<close>
  | UpstreamConnect pg_connect     \<comment> \<open>\<^verbatim>\<open>pgconn.ConnectConfig\<close>\<close>
  | SetKeepAlive
  | SetKeepAlivePeriod
  | WriteClient bytes
  | WriteUpstream bytes
  | TLSUpstream string             \<comment> \<open>client handshake with the upstream, verifying this name\<close>
  | TLSClient string               \<comment> \<open>server handshake with the client\<close>
  | HttpError nat                  \<comment> \<open>\<^verbatim>\<open>http.Error\<close> with this status\<close>
  | HijackClient
  | Splice                         \<comment> \<open>both copy directions run until one ends\<close>
  | CloseUpstream
  | CloseClient

type_synonym trace = "event list"

definition dials :: "trace \<Rightarrow> string list" where
  "dials tr = List.map_filter (\<lambda>e. case e of DialTCP a \<Rightarrow> Some a | _ \<Rightarrow> None) tr"

subsection \<open>The counters of a handler\<close>

record metrics =
  activeSessions :: int
  startedSessions :: nat
  errors :: "string \<Rightarrow> nat"

definition zero_metrics :: metrics where
  "zero_metrics = \<lparr>activeSessions = 0, startedSessions = 0, errors = (\<lambda>_. 0)\<rparr>"

fun count_event :: "event \<Rightarrow> metrics \<Rightarrow> metrics" where
  "count_event (ErrorAdd k) m = m\<lparr>errors := (errors m)(k := errors m k + 1)\<rparr>"
| "count_event StartedAdd m = m\<lparr>startedSessions := startedSessions m + 1\<rparr>"
| "count_event (ActiveAdd d) m = m\<lparr>activeSessions := activeSessions m + d\<rparr>"
| "count_event _ m = m"

definition run_metrics :: "trace \<Rightarrow> metrics" where
  "run_metrics tr = fold count_event tr zero_metrics"

fun active_delta :: "event \<Rightarrow> int" where
  "active_delta (ActiveAdd d) = d"
| "active_delta _ = 0"

definition net :: "trace \<Rightarrow> int" where
  "net tr = sum_list (map active_delta tr)"

lemma net_simps [simp]:
  "net [] = 0" "net (e # tr) = active_delta e + net tr" "net (xs @ ys) = net xs + net ys"
  by (simp_all add: net_def)

lemma activeSessions_count_event [simp]:
  "activeSessions (count_event e m) = activeSessions m + active_delta e"
  by (cases e) auto

text \<open>What remains of a trace opens no session that it does not close: it is worth 0, or -1
  when the session is open.\<close>

fun gauge_ok :: "trace \<Rightarrow> bool" where
  "gauge_ok [] = True"
| "gauge_ok (e # tr) = ((net (e # tr) = 0 \<or> net (e # tr) = -1) \<and> gauge_ok tr)"

definition session_open :: "trace \<Rightarrow> bool" where
  "session_open rest = (net rest = -1)"

lemma gauge_ok_net: "gauge_ok tr \<Longrightarrow> net tr = 0 \<or> net tr = -1"
  by (cases tr) auto

lemma net_no_active: "list_all (\<lambda>e. active_delta e = 0) xs \<Longrightarrow> net xs = 0"
  by (induction xs) auto

lemma gauge_ok_no_active:
  "list_all (\<lambda>e. active_delta e = 0) xs \<Longrightarrow> gauge_ok (xs @ ys) \<longleftrightarrow> gauge_ok ys"
proof (induction xs)
  case (Cons e xs)
  then have "net xs = 0" by (simp add: net_no_active)
  with Cons gauge_ok_net [of ys] show ?case by auto
qed simp

text \<open>The keys a trace adds to the error counters.\<close>

definition error_keys :: "trace \<Rightarrow> string list" where
  "error_keys tr = List.map_filter (\<lambda>e. case e of ErrorAdd k \<Rightarrow> Some k | _ \<Rightarrow> None) tr"

lemma error_keys_simps [simp]:
  "error_keys [] = []"
  "error_keys (e # tr) = (case e of ErrorAdd k \<Rightarrow> k # error_keys tr | _ \<Rightarrow> error_keys tr)"
  "error_keys (xs @ ys) = error_keys xs @ error_keys ys"
  by (simp_all add: error_keys_def List.map_filter_def split: event.split)

fun is_start :: "event \<Rightarrow> bool" where
  "is_start StartedAdd = True"
| "is_start _ = False"

definition starts :: "trace \<Rightarrow> nat" where
  "starts tr = length (filter is_start tr)"

lemma starts_simps [simp]:
  "starts [] = 0" "starts (e # tr) = (if is_start e then 1 else 0) + starts tr"
  "starts (xs @ ys) = starts xs + starts ys"
  by (simp_all add: starts_def)

lemma fold_count_event:
  "fold count_event tr m = \<lparr>activeSessions = activeSessions m + net tr,
     startedSessions = startedSessions m + starts tr,
     errors = (\<lambda>k. errors m k + count_list (error_keys tr) k)\<rparr>"
proof (induction tr arbitrary: m)
  case (Cons e tr)
  then show ?case by (cases e) (auto simp: fun_eq_iff)
qed simp

lemma run_metrics_eq:
  "run_metrics tr = \<lparr>activeSessions = net tr, startedSessions = starts tr,
     errors = count_list (error_keys tr)\<rparr>"
  by (simp add: run_metrics_def fold_count_event zero_metrics_def)

subsection \<open>Many sessions at once\<close>

text \<open>
  The state of a listener: what each accepted session still has to do, and the counters they
  share. A step accepts a connection, whatever its world, or lets one session take its next
  step; sessions interleave arbitrarily.
\<close>

type_synonym server = "trace list \<times> metrics"

inductive server_step :: "('w \<Rightarrow> trace) \<Rightarrow> server \<Rightarrow> server \<Rightarrow> bool" for h where
  accept: "server_step h (ss, m) (ss @ [h w], m)"
| session: "server_step h (xs @ (e # tr) # ys, m) (xs @ tr # ys, count_event e m)"

inductive server_reach :: "('w \<Rightarrow> trace) \<Rightarrow> server \<Rightarrow> bool" for h where
  init: "server_reach h ([], zero_metrics)"
| step: "server_reach h s \<Longrightarrow> server_step h s t \<Longrightarrow> server_reach h t"

inductive_cases server_stepE: "server_step h (ss, m) t"

text \<open>The same with a record of the worlds of the connections accepted so far.\<close>

inductive server_run :: "('w \<Rightarrow> trace) \<Rightarrow> 'w list \<Rightarrow> server \<Rightarrow> bool" for h where
  run_init: "server_run h [] ([], zero_metrics)"
| run_accept: "server_run h ws (ss, m) \<Longrightarrow> server_run h (ws @ [w]) (ss @ [h w], m)"
| run_session: "server_run h ws (xs @ (e # tr) # ys, m) \<Longrightarrow>
    server_run h ws (xs @ tr # ys, count_event e m)"

lemma server_run_reach: "server_run h ws s \<Longrightarrow> server_reach h s"
  by (induction rule: server_run.induct) (blast intro: server_reach.intros server_step.intros)+

lemma server_reach_run: "server_reach h s \<Longrightarrow> \<exists>ws. server_run h ws s"
proof (induction rule: server_reach.induct)
  case init
  show ?case by (blast intro: run_init)
next
  case (step s t)
  then obtain ws where "server_run h ws s" by blast
  with step.hyps(2) show ?case
    by (cases rule: server_step.cases) (blast intro: run_accept run_session)+
qed

lemma run_to_end:
  "server_run h ws (xs @ tr # ys, m) \<Longrightarrow> server_run h ws (xs @ [] # ys, fold count_event tr m)"
  by (induction tr arbitrary: m) (auto dest: run_session)

text \<open>Serving the connections one at a time is one of the runs.\<close>

lemma run_one_by_one:
  "server_run h ws (map (\<lambda>w. []) ws, run_metrics (concat (map h ws)))"
proof (induction ws rule: rev_induct)
  case Nil
  then show ?case by (simp add: run_metrics_def run_init)
next
  case (snoc w ws)
  from run_to_end [OF run_accept [OF snoc, of w]] show ?case
    by (simp add: run_metrics_def)
qed

text \<open>Counting commutes, so the order in which sessions take their steps does not show.\<close>

lemma count_event_commute: "count_event e \<circ> count_event f = count_event f \<circ> count_event e"
  by (rule ext, cases e; cases f) (simp_all add: fun_upd_twist)

lemma fold_count_mset: "mset xs = mset ys \<Longrightarrow> fold count_event xs = fold count_event ys"
  by (rule fold_multiset_equiv [OF count_event_commute])

text \<open>At every moment the counters, completed by what the sessions still have to do, are those of
  running the accepted sessions one after the other.\<close>

lemma run_sequential:
  "server_run h ws (ss, m) \<Longrightarrow>
     fold count_event (concat ss) m = run_metrics (concat (map h ws))"
proof (induction ws "(ss, m)" arbitrary: ss m rule: server_run.induct)
  case (run_session ws xs e tr ys m)
  have "fold count_event (concat (xs @ tr # ys)) (count_event e m)
      = fold count_event (e # concat (xs @ tr # ys)) m" by simp
  also have "\<dots> = fold count_event (concat (xs @ (e # tr) # ys)) m"
    by (rule fun_cong [OF fold_count_mset]) simp
  finally show ?case using run_session.hyps(2) by simp
qed (simp_all add: run_metrics_def)

definition open_sessions :: "trace list \<Rightarrow> int" where
  "open_sessions ss = int (length (filter session_open ss))"

locale counted_handler =
  fixes handler :: "'w \<Rightarrow> trace"
  assumes balanced: "net (handler w) = 0"
    and gauge: "gauge_ok (handler w)"
begin

lemma reach_invariant:
  "server_reach handler s \<Longrightarrow>
     list_all gauge_ok (fst s) \<and> activeSessions (snd s) = - sum_list (map net (fst s))"
proof (induction rule: server_reach.induct)
  case init
  then show ?case by (simp add: zero_metrics_def)
next
  case (step s t)
  obtain ss m where s: "s = (ss, m)" by (cases s)
  from step.hyps(2) [unfolded s] step.IH s show ?case
    by (cases rule: server_stepE) (auto simp: balanced gauge)
qed

lemma open_sessions_net:
  "list_all gauge_ok ss \<Longrightarrow> open_sessions ss = - sum_list (map net ss)"
  by (induction ss) (auto simp: open_sessions_def session_open_def dest: gauge_ok_net)

lemma active_is_open:
  "server_reach handler (ss, m) \<Longrightarrow> activeSessions m = open_sessions ss"
  using reach_invariant [of "(ss, m)"] open_sessions_net [of ss] by simp

lemma active_bounds:
  "server_reach handler (ss, m) \<Longrightarrow> 0 \<le> activeSessions m \<and> activeSessions m \<le> int (length ss)"
  by (simp add: active_is_open open_sessions_def)

lemma active_drains:
  "server_reach handler (ss, m) \<Longrightarrow> concat ss = [] \<Longrightarrow> activeSessions m = 0"
  using active_is_open [of ss m] by (auto simp: open_sessions_def session_open_def filter_empty_conv)

end

end
