(* ===== verification/Handler.thy ===== *)
theory Handler
  imports Peer Trace
begin

text \<open>
  The contract between a connection handler and the source gate: a handler that reaches out to
  an upstream only for admitted peers never does so on behalf of an untrusted address. The
  handlers of the CONNECT proxy, the plain-TCP proxy and the Postgres proxy are instances.
\<close>

text \<open>The events by which a handler contacts an upstream.\<close>

fun is_outbound :: "event \<Rightarrow> bool" where
  "is_outbound (DialTCP a) = True"
| "is_outbound (UpstreamConnect c) = True"
| "is_outbound (TLSUpstream n) = True"
| "is_outbound (WriteUpstream bs) = True"
| "is_outbound Splice = True"
| "is_outbound _ = False"

definition outbound :: "trace \<Rightarrow> trace" where
  "outbound tr = filter is_outbound tr"

lemma outbound_simps [simp]:
  "outbound [] = []"
  "outbound (e # tr) = (if is_outbound e then e # outbound tr else outbound tr)"
  "outbound (xs @ ys) = outbound xs @ outbound ys"
  by (simp_all add: outbound_def)

locale gated_handler = source_gate +
  fixes handler :: "flags \<Rightarrow> 'w \<Rightarrow> trace"
    and remote :: "'w \<Rightarrow> string"
  assumes gated: "outbound (handler fl w) \<noteq> [] \<Longrightarrow> admits fl (classifyPeer fl (remote w))"
begin

lemma outbound_trusted:
  "outbound (handler fl w) \<noteq> [] \<Longrightarrow>
     \<exists>ip. remote_ip (remote w) = Some ip \<and>
       (onFly fl \<and> in_fly_6pn ip \<or> tailscaleEnabled fl \<and> in_tailnet ip)"
  by (intro admitted_trusted gated)

lemma untrusted_silent:
  "remote_ip (remote w) = None \<Longrightarrow> outbound (handler fl w) = []"
  using outbound_trusted [of fl w] by force

end

end
