(* ===== verification/TcpProxy.thy ===== *)
theory TcpProxy
  imports Handler Config Splice_Model
begin

text \<open>
  The plain-TCP forwarder (\<^verbatim>\<open>src/tcpproxy.go\<close>). \<open>tcp_world\<close> is what the outside
  gives one accepted connection: its address, whether it is a \<^verbatim>\<open>*net.TCPConn\<close> and
  accepts the keepalive option, whether the dial to the target succeeds, and whether the first
  copy direction to end reports an error. \<open>tcp_handle\<close> is the whole handler, deferred
  calls included; log lines are left out.
\<close>

record tcp_world =
  tw_remote :: string
  tw_is_tcp :: bool
  tw_keepalive_ok :: bool
  tw_dial_ok :: bool
  tw_copy_err :: bool

text \<open>The capacity of the result channel.\<close>

definition tcp_errc_cap :: nat where
  "tcp_errc_cap = 2"

definition setKeepAlive :: "tcp_world \<Rightarrow> trace" where
  "setKeepAlive w =
     (if \<not> tw_is_tcp w then []
      else [SetKeepAlive] @ (if \<not> tw_keepalive_ok w then [] else [SetKeepAlivePeriod]))"

definition tcp_handle :: "tcpTarget \<Rightarrow> flags \<Rightarrow> tcp_world \<Rightarrow> trace" where
  "tcp_handle cfg fl w =
     (if classifyPeer fl (tw_remote w) = peerReject then
        [ErrorAdd ''disallowed-source'', CloseClient]
      else
        [DialTCP (t_Target cfg)] @
        (if \<not> tw_dial_ok w then [ErrorAdd ''dial-failed'', CloseClient]
         else
           setKeepAlive w @ [StartedAdd, ActiveAdd 1, Splice]
           @ (if tw_copy_err w then [ErrorAdd ''network-error''] else [])
           @ [ActiveAdd (- 1), CloseUpstream, CloseClient]))"

text \<open>The accept loop: every accepted connection is handled, until \<^verbatim>\<open>Accept\<close> fails.\<close>

fun tcp_Serve :: "tcpTarget \<Rightarrow> flags \<Rightarrow> tcp_world option list \<Rightarrow> trace list" where
  "tcp_Serve cfg fl [] = []"
| "tcp_Serve cfg fl (None # accepts) = []"
| "tcp_Serve cfg fl (Some w # accepts) = tcp_handle cfg fl w # tcp_Serve cfg fl accepts"

lemma setKeepAlive_inert:
  "list_all (\<lambda>e. active_delta e = 0) (setKeepAlive w)" "outbound (setKeepAlive w) = []"
  by (simp_all add: setKeepAlive_def)

lemma net_setKeepAlive [simp]: "net (setKeepAlive w) = 0"
  by (rule net_no_active [OF setKeepAlive_inert(1)])

interpretation tcp_gate: gated_handler admit_classified "tcp_handle cfg" tw_remote for cfg
  by unfold_locales (auto simp: tcp_handle_def admit_classified_def split: if_splits)

interpretation tcp_counted: counted_handler "tcp_handle cfg fl" for cfg fl
proof (unfold_locales, goal_cases)
  case (1 w)
  then show ?case by (simp add: tcp_handle_def)
next
  case (2 w)
  show ?case
    by (simp add: tcp_handle_def gauge_ok_no_active [OF setKeepAlive_inert(1)])
qed

text \<open>C12: the forwarder reaches out for trusted sources only: on behalf of a peer outside the
  trusted ranges it dials nothing and relays nothing, counts one refusal and closes; a trusted
  peer is dialed to exactly the configured target, and the connection is closed in every
  case, the upstream one whenever it was opened.\<close>

theorem tcp_handle_gate:
  "(if classifyPeer fl (tw_remote w) = peerReject
    then tcp_handle cfg fl w = [ErrorAdd ''disallowed-source'', CloseClient]
    else dials (tcp_handle cfg fl w) = [t_Target cfg]
      \<and> (CloseUpstream \<in> set (tcp_handle cfg fl w) \<longleftrightarrow> tw_dial_ok w)
      \<and> (Splice \<in> set (tcp_handle cfg fl w) \<longleftrightarrow> tw_dial_ok w))
   \<and> last (tcp_handle cfg fl w) = CloseClient
   \<and> (outbound (tcp_handle cfg fl w) \<noteq> [] \<longleftrightarrow>
        (\<exists>ip. remote_ip (tw_remote w) = Some ip \<and>
          (onFly fl \<and> in_fly_6pn ip \<or> tailscaleEnabled fl \<and> in_tailnet ip)))"
proof -
  have "outbound (tcp_handle cfg fl w) \<noteq> [] \<longleftrightarrow> classifyPeer fl (tw_remote w) \<noteq> peerReject"
    by (simp add: tcp_handle_def)
  moreover have "classifyPeer fl (tw_remote w) \<noteq> peerReject \<longleftrightarrow>
      (\<exists>ip. remote_ip (tw_remote w) = Some ip \<and>
        (onFly fl \<and> in_fly_6pn ip \<or> tailscaleEnabled fl \<and> in_tailnet ip))"
    using ranges_disjoint by (auto simp: classifyPeer_remote_ip split: option.splits)
  ultimately show ?thesis
    by (auto simp: tcp_handle_def dials_def List.map_filter_def setKeepAlive_def)
qed

text \<open>The active-sessions gauge of a TCP target is exact under every interleaving of its
  sessions: it always equals the number of sessions between their start and their end, is
  never negative, and is back to zero once every handler has returned.\<close>

theorem tcp_gauge_exact:
  assumes "server_reach (tcp_handle cfg fl) (ss, m)"
  shows "activeSessions m = open_sessions ss \<and> 0 \<le> activeSessions m
    \<and> (concat ss = [] \<longrightarrow> activeSessions m = 0)"
  using tcp_counted.active_is_open [OF assms] tcp_counted.active_bounds [OF assms]
    tcp_counted.active_drains [OF assms] by blast

text \<open>A trusted peer of a demonstration target, one session between its start and its end.\<close>

definition demo_tcp_flags :: flags where
  "demo_tcp_flags = \<lparr>destinationPgDbs = [], destinationTCPTargets = [], flyListenHost = ''[::]'',
     httpProxyListen = ''[::]:8080'', tailscaleEnabled = False, httpProxyAllowTailscale = False,
     debugPort = 80, upstreamCA = ''ca.pem'', dnsResolver = [], aliasDomainFlag = [],
     internalDomainFlag = [], FLY_APP_NAME = ''gw''\<rparr>"

definition demo_target :: tcpTarget where
  "demo_target = \<lparr>t_Name = ''mts'', t_Listen = 9001, t_Target = ''gateway.example.com:5671''\<rparr>"

definition demo_tcp_world :: tcp_world where
  "demo_tcp_world = \<lparr>tw_remote = ''[fdaa::3]:4711'', tw_is_tcp = False, tw_keepalive_ok = True,
     tw_dial_ok = True, tw_copy_err = False\<rparr>"

lemma demo_tcp_trace:
  "tcp_handle demo_target demo_tcp_flags demo_tcp_world =
     [DialTCP ''gateway.example.com:5671'', StartedAdd, ActiveAdd 1, Splice, ActiveAdd (- 1),
      CloseUpstream, CloseClient]"
proof -
  have "classifyPeer demo_tcp_flags (tw_remote demo_tcp_world) = peerFly" by code_simp
  then show ?thesis
    by (simp add: tcp_handle_def demo_target_def demo_tcp_world_def setKeepAlive_def)
qed

lemma demo_tcp_reach:
  "server_reach (tcp_handle demo_target demo_tcp_flags)
     ([[Splice, ActiveAdd (- 1), CloseUpstream, CloseClient]],
      zero_metrics\<lparr>activeSessions := 1, startedSessions := 1\<rparr>)"
proof -
  let ?h = "tcp_handle demo_target demo_tcp_flags"
  have s0: "server_reach ?h ([?h demo_tcp_world], zero_metrics)"
    using server_reach.step [OF server_reach.init server_step.accept] by fastforce
  have step: "server_reach ?h ([e # tr], m) \<Longrightarrow> server_reach ?h ([tr], count_event e m)" for e tr m
    using server_reach.step [OF _ server_step.session [of ?h "[]" e tr "[]" m]] by simp
  from step [OF step [OF step [OF s0 [unfolded demo_tcp_trace]]]] show ?thesis
    by (simp add: zero_metrics_def)
qed

theorem tcp_gauge_exact_witness:
  "activeSessions (zero_metrics\<lparr>activeSessions := 1, startedSessions := 1\<rparr>)
   = open_sessions [[Splice, ActiveAdd (- 1), CloseUpstream, CloseClient]]"
  using tcp_gauge_exact [OF demo_tcp_reach] by blast

end
