(* ===== verification/HttpProxy.thy ===== *)
theory HttpProxy
  imports Handler Splice_Model
begin

text \<open>
  The HTTPS CONNECT proxy (\<^verbatim>\<open>src/httpproxy.go\<close>). \<open>http_world\<close> is one request and
  what the outside answers: the peer, method and host of the request, whether the response
  writer can be hijacked, and whether the dial, the hijack and the write of the 200 line
  succeed. \<open>hw_buffered\<close> are the bytes the server has already read past the request
  (\<^verbatim>\<open>Hijack\<close> returns them in its second result), \<open>hw_rest\<close> those still to come.
\<close>

record http_world =
  hw_remote :: string
  hw_method :: string
  hw_host :: string
  hw_hijackable :: bool
  hw_dial_ok :: bool
  hw_hijack_ok :: bool
  hw_write_ok :: bool
  hw_buffered :: bytes
  hw_rest :: bytes

definition connect_ok :: bytes where
  "connect_ok = ''HTTP/1.1 200 OK'' @ [CHR 0x0D, CHR 0x0A, CHR 0x0D, CHR 0x0A]"

definition ServeHTTP :: "flags \<Rightarrow> http_world \<Rightarrow> trace" where
  "ServeHTTP fl w =
     (if \<not> allowPeer fl (classifyPeer fl (hw_remote w)) then
        [ErrorAdd ''disallowed-source'', HttpError 403]
      else if hw_method w \<noteq> ''CONNECT'' then
        [ErrorAdd ''bad-method'', HttpError 405]
      else if \<not> hw_hijackable w then
        [ErrorAdd ''hijack-unsupported'', HttpError 500]
      else
        [DialTCP (hw_host w)] @
        (if \<not> hw_dial_ok w then [ErrorAdd ''dial-failed'', HttpError 502]
         else
           [HijackClient] @
           (if \<not> hw_hijack_ok w then [ErrorAdd ''hijack-failed'', CloseUpstream]
            else
              [WriteClient connect_ok] @
              (if \<not> hw_write_ok w then [ErrorAdd ''network-error'', CloseClient, CloseUpstream]
               else
                 [StartedAdd, ActiveAdd 1, Splice, ActiveAdd (- 1), CloseClient, CloseUpstream]))))"

text \<open>The client stream the copy reads from: the connection alone, since the source discards
  the buffered reader.\<close>

definition connect_stream :: "http_world \<Rightarrow> bytes" where
  "connect_stream w = hw_rest w"

definition http_errc_cap :: nat where
  "http_errc_cap = 1"

interpretation http_gate: gated_handler allowPeer ServeHTTP hw_remote
  by unfold_locales (auto simp: ServeHTTP_def split: if_splits)

interpretation http_counted: counted_handler "ServeHTTP fl" for fl
  by unfold_locales (simp_all add: ServeHTTP_def)

fun is_refusal :: "event \<Rightarrow> bool" where
  "is_refusal (HttpError n) = True"
| "is_refusal _ = False"

text \<open>C13: every CONNECT request takes exactly one of the documented outcomes, in this order of
  checks: 403 for a source that is not admitted, 405 for another method, 500 when hijacking is
  impossible, 502 when the target cannot be dialed, and otherwise a tunnel to exactly the
  requested host. A refused request causes at most the one dial of the 502 case, and is never
  tunnelled.\<close>

theorem ServeHTTP_outcome:
  "filter is_refusal (ServeHTTP fl w) =
     (if \<not> allowPeer fl (classifyPeer fl (hw_remote w)) then [HttpError 403]
      else if hw_method w \<noteq> ''CONNECT'' then [HttpError 405]
      else if \<not> hw_hijackable w then [HttpError 500]
      else if \<not> hw_dial_ok w then [HttpError 502]
      else [])
   \<and> dials (ServeHTTP fl w) =
     (if allowPeer fl (classifyPeer fl (hw_remote w)) \<and> hw_method w = ''CONNECT'' \<and> hw_hijackable w
      then [hw_host w] else [])
   \<and> (Splice \<in> set (ServeHTTP fl w) \<longleftrightarrow>
        allowPeer fl (classifyPeer fl (hw_remote w)) \<and> hw_method w = ''CONNECT''
        \<and> hw_hijackable w \<and> hw_dial_ok w \<and> hw_hijack_ok w \<and> hw_write_ok w)"
  by (auto simp: ServeHTTP_def dials_def List.map_filter_def)

text \<open>The CONNECT proxy lends the egress address to nobody else: if a request makes it
  contact an upstream at all, the peer is a Fly 6PN address on Fly, or a tailnet address with
  Tailscale and the opt-in flag both on.\<close>

theorem ServeHTTP_gate:
  assumes "outbound (ServeHTTP fl w) \<noteq> []"
  shows "\<exists>ip. remote_ip (hw_remote w) = Some ip \<and>
    (onFly fl \<and> in_fly_6pn ip
     \<or> tailscaleEnabled fl \<and> httpProxyAllowTailscale fl \<and> in_tailnet ip)"
proof -
  have adm: "allowPeer fl (classifyPeer fl (hw_remote w))"
    using assms by (rule http_gate.gated)
  obtain ip where "remote_ip (hw_remote w) = Some ip"
    using http_gate.outbound_trusted [OF assms] by blast
  with adm show ?thesis
    by (auto simp: allowPeer_def classifyPeer_remote_ip split: if_splits)
qed

definition demo_flags :: flags where
  "demo_flags = \<lparr>destinationPgDbs = [], destinationTCPTargets = [], flyListenHost = ''[::]'',
     httpProxyListen = ''[::]:8080'', tailscaleEnabled = True, httpProxyAllowTailscale = True,
     debugPort = 80, upstreamCA = ''ca.pem'', dnsResolver = [], aliasDomainFlag = [],
     internalDomainFlag = [], FLY_APP_NAME = ''gw''\<rparr>"

definition demo_request :: http_world where
  "demo_request = \<lparr>hw_remote = ''100.64.0.7:4711'', hw_method = ''CONNECT'',
     hw_host = ''vendor.example.com:443'', hw_hijackable = True, hw_dial_ok = True,
     hw_hijack_ok = True, hw_write_ok = True, hw_buffered = [], hw_rest = ''hello''\<rparr>"

lemma demo_outbound: "outbound (ServeHTTP demo_flags demo_request) =
    [DialTCP ''vendor.example.com:443'', Splice]"
proof -
  have "classifyPeer demo_flags (hw_remote demo_request) = peerTailscale"
    "allowPeer demo_flags peerTailscale"
    by (code_simp, code_simp)
  then show ?thesis by (simp add: ServeHTTP_def demo_request_def)
qed

theorem ServeHTTP_gate_witness:
  "\<exists>ip. remote_ip (hw_remote demo_request) = Some ip \<and>
    (onFly demo_flags \<and> in_fly_6pn ip
     \<or> tailscaleEnabled demo_flags \<and> httpProxyAllowTailscale demo_flags \<and> in_tailnet ip)"
  by (rule ServeHTTP_gate) (simp add: demo_outbound)

text \<open>The tunnel is not faithful to a client that speaks early: what can reach the
  upstream is only what arrives after the hijack, so bytes the client sent together with its
  request, which the HTTP server had already buffered, are lost: a complete, error-free
  session can deliver a stream that is not a prefix of what the client sent.\<close>

theorem connect_drops_early_bytes:
  "\<exists>w s. splice_reach http_errc_cap (connect_stream w) Eof [] Idle s \<and> first_result s = Some False
     \<and> to_upstream s = hw_rest w \<and> \<not> prefix (to_upstream s) (hw_buffered w @ hw_rest w)"
proof -
  let ?w = "demo_request\<lparr>hw_buffered := ''GET'', hw_rest := ''x''\<rparr>"
  let ?s0 = "splice_init ''x'' Eof [] Idle"
  let ?s1 = "?s0\<lparr>client_in := [], to_upstream := to_upstream ?s0 @ ''x''\<rparr>"
  let ?s2 = "?s1\<lparr>up := Sending False\<rparr>"
  let ?s3 = "?s2\<lparr>up := Finished, errc := errc ?s2 @ [False]\<rparr>"
  let ?s4 = "?s3\<lparr>errc := [], first_result := Some False\<rparr>"
  have "splice_step 1 ?s0 ?s1" by (rule copy_up) (simp_all add: splice_init_def)
  moreover have "splice_step 1 ?s1 ?s2" by (rule eof_up) (simp_all add: splice_init_def)
  moreover have "splice_step 1 ?s2 ?s3" by (rule send_up) (simp_all add: splice_init_def)
  moreover have "splice_step 1 ?s3 ?s4" by (rule receive) (simp_all add: splice_init_def)
  ultimately have "splice_reach 1 ''x'' Eof [] Idle ?s4" by (meson splice_reach.intros)
  then show ?thesis
    by (intro exI [of _ ?w] exI [of _ ?s4])
      (simp add: connect_stream_def http_errc_cap_def splice_init_def)
qed

end
