(* ===== verification/Framing.thy ===== *)
theory Framing
  imports Prelude
begin

text \<open>
  The contract of a message framing on a byte stream: reading back a written message returns
  it and leaves the rest of the stream alone, and a read always consumes something. Whoever
  relies on it can read a whole conversation back message by message, and no message can be
  mistaken for another. The length-prefixed framing of DNS over TCP and the self-describing
  Postgres startup message are instances.
\<close>

fun read_many :: "(bytes \<Rightarrow> ('m \<times> bytes) option) \<Rightarrow> nat \<Rightarrow> bytes \<Rightarrow> ('m list \<times> bytes) option" where
  "read_many dec 0 s = Some ([], s)"
| "read_many dec (Suc n) s =
     (case dec s of
        None \<Rightarrow> None
      | Some (m, r) \<Rightarrow>
          (case read_many dec n r of None \<Rightarrow> None | Some (ms, r') \<Rightarrow> Some (m # ms, r')))"

locale framing =
  fixes enc :: "'m \<Rightarrow> bytes"
    and dec :: "bytes \<Rightarrow> ('m \<times> bytes) option"
    and sendable :: "'m \<Rightarrow> bool"
  assumes dec_enc: "sendable m \<Longrightarrow> dec (enc m @ r) = Some (m, r)"
    and dec_consumes: "dec s = Some (m, r) \<Longrightarrow> length r < length s"
begin

lemma read_back:
  "list_all sendable ms \<Longrightarrow> read_many dec (length ms) (concat (map enc ms) @ r) = Some (ms, r)"
  by (induction ms) (simp_all add: dec_enc)

lemma unambiguous:
  assumes "sendable m" "sendable m'" "enc m @ r = enc m' @ r'"
  shows "m = m' \<and> r = r'"
proof -
  have "Some (m, r) = Some (m', r')"
    unfolding dec_enc [OF assms(1), symmetric] dec_enc [OF assms(2), symmetric] assms(3) ..
  then show ?thesis by simp
qed

end

end
