(* ===== verification/Dns.thy ===== *)
theory Dns
  imports Peer Framing
begin

text \<open>
  The DNS forwarder (\<^verbatim>\<open>src/dns.go\<close>): its configuration, the question parser, the
  answer builder, the self-rewrite, the alias scheme, and the UDP and TCP servers. The record
  \<open>dns_env\<close> holds the settings fixed at startup and the outside world: the interface
  addresses, the resolver's address lookup, and its replies to relayed messages.
\<close>

definition dnsTypeA :: nat where "dnsTypeA = 1"
definition dnsTypeAAAA :: nat where "dnsTypeAAAA = 28"

definition flyResolver :: string where
  "flyResolver = ''[fdaa::3]:53''"

text \<open>The package variables \<^verbatim>\<open>startDNSForwarder\<close> sets.\<close>

record dns_settings =
  aliasSuffix :: string
  internalDomain :: string
  dnsSelfSuffix :: string

text \<open>The outside: \<open>ifaces\<close> is \<^verbatim>\<open>net.InterfaceAddrs()\<close> (\<open>None\<close> for an error; an
  element is the IP of a \<^verbatim>\<open>*net.IPNet\<close>, or \<open>None\<close> for another kind of address),
  \<open>lookup\<close> is \<^verbatim>\<open>LookupNetIP\<close> at the resolver (the flag selects \<^verbatim>\<open>ip4\<close>),
  \<open>udp_reply\<close> the datagram and \<open>tcp_reply\<close> the byte stream the resolver returns for what it
  was sent, and \<open>ul\<close> the Unicode lower-casing of non-ASCII strings.\<close>

record dns_env = dns_settings +
  ul :: "string \<Rightarrow> string"
  ifaces :: "bytes option list option"
  lookup_ip :: "bool \<Rightarrow> string \<Rightarrow> netip_addr list option"
  udp_reply :: "bytes \<Rightarrow> bytes option"
  tcp_reply :: "bytes \<Rightarrow> bytes option"

text \<open>The settings of a start: \<open>None\<close> when no resolver is set and the forwarder stays off.\<close>

definition dns_start :: "(string \<Rightarrow> string) \<Rightarrow> flags \<Rightarrow> (string \<times> dns_settings) option" where
  "dns_start lw fl =
     (let r0 = TrimSpace (dnsResolver fl);
          resolver = (if r0 = [] \<and> onFly fl then flyResolver else r0) in
      if resolver = [] then None
      else
        let alias = ToLower lw (Trim (TrimSpace (aliasDomainFlag fl)) ''.'');
            int0 = ToLower lw (Trim (TrimSpace (internalDomainFlag fl)) ''.'');
            int1 = (if int0 = [] \<and> onFly fl then ''internal'' else int0);
            app = TrimSpace (FLY_APP_NAME fl);
            self = (if app \<noteq> [] then ToLower lw app @ ''.internal'' else [])
        in Some (resolver,
             \<lparr>aliasSuffix = alias, internalDomain = int1, dnsSelfSuffix = self\<rparr>))"

definition dnsIsSelf :: "'a dns_settings_scheme \<Rightarrow> string \<Rightarrow> bool" where
  "dnsIsSelf st name = (if dnsSelfSuffix st = [] then False else name = dnsSelfSuffix st)"

subsection \<open>The question\<close>

text \<open>The label loop: the name read so far and the offset of the next length byte.\<close>

function qname :: "bytes \<Rightarrow> nat \<Rightarrow> string \<Rightarrow> (string \<times> nat) option" where
  "qname msg off sb =
     (if off \<ge> length msg then None
      else
        let l = (of_char (msg ! off) :: nat) in
        if l = 0 then Some (sb, off + 1)
        else if l AND 0xC0 \<noteq> 0 \<or> off + 1 + l > length msg then None
        else qname msg (off + 1 + l)
               ((if sb \<noteq> [] then sb @ ''.'' else sb) @ take l (drop (off + 1) msg)))"
  by pat_completeness auto
termination
  by (relation "measure (\<lambda>(msg, off, sb). length msg - off)") auto

declare qname.simps [simp del]

definition parseDNSQuestion :: "(string \<Rightarrow> string) \<Rightarrow> bytes \<Rightarrow> (string \<times> nat \<times> nat) option" where
  "parseDNSQuestion lw msg =
     (if length msg < 12 \<or> Uint16 (take 2 (drop 4 msg)) < 1 then None
      else case qname msg 12 [] of
        None \<Rightarrow> None
      | Some (sb, off) \<Rightarrow>
          if off + 4 > length msg then None
          else Some (ToLower lw sb, Uint16 (take 2 (drop off msg)), off + 4))"

subsection \<open>Answers\<close>

fun self_addr_loop :: "nat \<Rightarrow> bytes option list \<Rightarrow> netip_addr option" where
  "self_addr_loop qtype [] = None"
| "self_addr_loop qtype (None # as) = self_addr_loop qtype as"
| "self_addr_loop qtype (Some bs # as) =
     (case AddrFromSlice bs of
        None \<Rightarrow> self_addr_loop qtype as
      | Some ip0 \<Rightarrow>
          let ip = Unmap ip0 in
          if qtype = dnsTypeA \<and> Contains tailscaleV4 ip then Some ip
          else if qtype = dnsTypeAAAA \<and> Contains tailscaleV6 ip then Some ip
          else self_addr_loop qtype as)"

definition selfTailscaleAddr :: "dns_env \<Rightarrow> nat \<Rightarrow> netip_addr option" where
  "selfTailscaleAddr env qtype =
     (case ifaces env of None \<Rightarrow> None | Some addrs \<Rightarrow> self_addr_loop qtype addrs)"

definition answer_record :: "nat \<Rightarrow> netip_addr \<Rightarrow> bytes" where
  "answer_record qtype addr =
     (let ipb = AsSlice addr in
      [CHR 0xC0, CHR 0x0C] @ PutUint16 qtype @ PutUint16 1 @ PutUint32 30
      @ PutUint16 (length ipb) @ ipb)"

text \<open>The header is the query's with bytes 2 to 11 overwritten.\<close>

definition answer_header :: "bytes \<Rightarrow> nat \<Rightarrow> bytes" where
  "answer_header query n =
     take 2 query @ [byte_of (0x80 OR (of_char (query ! 2) AND 0x01)), CHR 0x80]
     @ PutUint16 1 @ PutUint16 n @ PutUint16 0 @ PutUint16 0"

definition dnsAnswerMulti :: "bytes \<Rightarrow> nat \<Rightarrow> netip_addr list \<Rightarrow> nat \<Rightarrow> bytes option" where
  "dnsAnswerMulti query qtype addrs qend =
     (if qend < 12 \<or> qend > length query \<or> addrs = [] then None
      else Some (answer_header query (length addrs) @ drop 12 (take qend query)
             @ concat (map (answer_record qtype) addrs)))"

definition dnsAnswer :: "bytes \<Rightarrow> nat \<Rightarrow> netip_addr \<Rightarrow> nat \<Rightarrow> bytes option" where
  "dnsAnswer query qtype addr qend = dnsAnswerMulti query qtype [addr] qend"

definition aliasTarget :: "'a dns_settings_scheme \<Rightarrow> string \<Rightarrow> string option" where
  "aliasTarget st name =
     (if aliasSuffix st = [] then None
      else
        let suffix = ''.'' @ aliasSuffix st in
        if \<not> HasSuffix name suffix then None
        else
          let short = take (length name - length suffix) name in
          if short = [] then None
          else if internalDomain st \<noteq> [] then Some (short @ ''.'' @ internalDomain st)
          else Some short)"

definition keep_family :: "nat \<Rightarrow> netip_addr list \<Rightarrow> netip_addr list" where
  "keep_family qtype ips =
     filter (\<lambda>ip. (qtype = dnsTypeA \<and> Is4 ip) \<or> (qtype = dnsTypeAAAA \<and> \<not> Is4 ip)) (map Unmap ips)"

definition resolveAlias :: "dns_env \<Rightarrow> bytes \<Rightarrow> bytes option" where
  "resolveAlias env query =
     (if aliasSuffix env = [] then None
      else case parseDNSQuestion (ul env) query of
        None \<Rightarrow> None
      | Some (name, qtype, qend) \<Rightarrow>
          if qtype \<noteq> dnsTypeA \<and> qtype \<noteq> dnsTypeAAAA then None
          else case aliasTarget env name of
            None \<Rightarrow> None
          | Some target \<Rightarrow>
              (case lookup_ip env (qtype = dnsTypeA) target of
                 None \<Rightarrow> None
               | Some ips \<Rightarrow>
                   let addrs = keep_family qtype ips in
                   if addrs = [] then None
                   else dnsAnswerMulti query qtype addrs qend))"

definition dnsSelfAnswer :: "dns_env \<Rightarrow> bytes \<Rightarrow> bytes option" where
  "dnsSelfAnswer env query =
     (case parseDNSQuestion (ul env) query of
        None \<Rightarrow> None
      | Some (name, qtype, qend) \<Rightarrow>
          if \<not> dnsIsSelf env name \<or> (qtype \<noteq> dnsTypeA \<and> qtype \<noteq> dnsTypeAAAA) then None
          else case selfTailscaleAddr env qtype of
            None \<Rightarrow> None
          | Some addr \<Rightarrow> dnsAnswer query qtype addr qend)"

subsection \<open>The servers\<close>

text \<open>The UDP server reads at most 4096 bytes of a query, and of the resolver's reply; the
  result is the datagram sent back, if any.\<close>

definition forwardDNSUDP :: "dns_env \<Rightarrow> bytes \<Rightarrow> bytes option" where
  "forwardDNSUDP env query = map_option (take 4096) (udp_reply env query)"

definition answerUDP :: "dns_env \<Rightarrow> bytes \<Rightarrow> bytes option" where
  "answerUDP env datagram =
     (let query = take 4096 datagram in
      case dnsSelfAnswer env query of
        Some resp \<Rightarrow> Some resp
      | None \<Rightarrow>
          (case resolveAlias env query of
             Some resp \<Rightarrow> Some resp
           | None \<Rightarrow> forwardDNSUDP env query))"

definition readDNSTCP :: "bytes \<Rightarrow> (bytes \<times> bytes) option" where
  "readDNSTCP r =
     (case ReadFull 2 r of
        None \<Rightarrow> None
      | Some (ln, r1) \<Rightarrow> ReadFull (Uint16 ln) r1)"

definition writeDNSTCP :: "bytes \<Rightarrow> bytes" where
  "writeDNSTCP msg = PutUint16 (length msg) @ msg"

definition forwardDNSTCP :: "dns_env \<Rightarrow> bytes \<Rightarrow> bytes option" where
  "forwardDNSTCP env msg =
     (case tcp_reply env (writeDNSTCP msg) of
        None \<Rightarrow> None
      | Some reply \<Rightarrow> map_option fst (readDNSTCP reply))"

lemma readDNSTCP_consumes: "readDNSTCP r = Some (m, r') \<Longrightarrow> length r' < length r"
  by (auto simp: readDNSTCP_def split: option.splits dest!: ReadFull_SomeD)

text \<open>One TCP connection: the responses written, in order. \<open>wok i\<close> tells whether the \<open>i\<close>-th
  response can be written.\<close>

function handleDNSTCP :: "dns_env \<Rightarrow> (nat \<Rightarrow> bool) \<Rightarrow> nat \<Rightarrow> bytes \<Rightarrow> bytes list" where
  "handleDNSTCP env wok i stream =
     (case readDNSTCP stream of
        None \<Rightarrow> []
      | Some (msg, rest) \<Rightarrow>
          (case dnsSelfAnswer env msg of
             Some resp \<Rightarrow>
               if \<not> wok i then [] else writeDNSTCP resp # handleDNSTCP env wok (i + 1) rest
           | None \<Rightarrow>
               (case resolveAlias env msg of
                  Some resp \<Rightarrow>
                    if \<not> wok i then [] else writeDNSTCP resp # handleDNSTCP env wok (i + 1) rest
                | None \<Rightarrow>
                    (case forwardDNSTCP env msg of
                       None \<Rightarrow> []
                     | Some resp \<Rightarrow>
                         if \<not> wok i then []
                         else writeDNSTCP resp # handleDNSTCP env wok (i + 1) rest))))"
  by pat_completeness auto
termination
  by (relation "measure (\<lambda>(env, wok, i, stream). length stream)")
    (auto dest: readDNSTCP_consumes)

declare handleDNSTCP.simps [simp del]

text \<open>The accept loops: every datagram, and every connection with what its writes do, until the
  listener fails. Each is served by its own goroutine.\<close>

fun serveDNSUDP :: "dns_env \<Rightarrow> bytes option list \<Rightarrow> bytes option list" where
  "serveDNSUDP env [] = []"
| "serveDNSUDP env (None # reads) = []"
| "serveDNSUDP env (Some datagram # reads) = answerUDP env datagram # serveDNSUDP env reads"

fun serveDNSTCP :: "dns_env \<Rightarrow> ((nat \<Rightarrow> bool) \<times> bytes) option list \<Rightarrow> bytes list list" where
  "serveDNSTCP env [] = []"
| "serveDNSTCP env (None # accepts) = []"
| "serveDNSTCP env (Some (wok, stream) # accepts) =
     handleDNSTCP env wok 0 stream # serveDNSTCP env accepts"

end
