(* ===== verification/DnsMessages.thy ===== *)
theory DnsMessages
  imports Dns
begin

text \<open>
  Correctness of the DNS message routines of \<open>Dns\<close>: the question parser against the wire
  form of a name, and the answers built locally against a decoder of resource records.
\<close>

subsection \<open>The label loop on the rest of the message\<close>

definition add_label :: "string \<Rightarrow> string \<Rightarrow> string" where
  "add_label sb w = (if sb \<noteq> [] then sb @ ''.'' else sb) @ w"

function labels :: "bytes \<Rightarrow> string \<Rightarrow> (string \<times> bytes) option" where
  "labels s sb =
     (case s of
        [] \<Rightarrow> None
      | c # t \<Rightarrow>
          let l = (of_char c :: nat) in
          if l = 0 then Some (sb, t)
          else if l AND 0xC0 \<noteq> 0 \<or> l > length t then None
          else labels (drop l t) (add_label sb (take l t)))"
  by pat_completeness auto
termination
  by (relation "measure (\<lambda>(s, sb). length s)") auto

declare labels.simps [simp del]

lemma labels_Nil [simp]: "labels [] sb = None"
  by (simp add: labels.simps)

lemma labels_Cons:
  "labels (c # t) sb =
     (let l = (of_char c :: nat) in
      if l = 0 then Some (sb, t)
      else if l AND 0xC0 \<noteq> 0 \<or> l > length t then None
      else labels (drop l t) (add_label sb (take l t)))"
  by (subst labels.simps) simp

lemma qname_labels:
  "qname msg off sb = map_option (\<lambda>(n, r). (n, length msg - length r)) (labels (drop off msg) sb)"
proof (induction msg off sb rule: qname.induct)
  case (1 msg off sb)
  show ?case
  proof (cases "off < length msg")
    case False
    then show ?thesis by (simp add: qname.simps [of msg off sb])
  next
    case True
    let ?l = "of_char (msg ! off) :: nat"
    have drop: "drop off msg = msg ! off # drop (Suc off) msg"
      using True by (simp add: Cons_nth_drop_Suc)
    show ?thesis
    proof (cases "?l = 0 \<or> ?l AND 0xC0 \<noteq> 0 \<or> off + 1 + ?l > length msg")
      case stop: True
      have "?l > length (drop (Suc off) msg) \<longleftrightarrow> off + 1 + ?l > length msg"
        using True by auto
      with stop True show ?thesis
        by (auto simp: qname.simps [of msg off sb] drop labels_Cons Let_def)
    next
      case False
      with True have "qname msg off sb = qname msg (off + 1 + ?l)
          (add_label sb (take ?l (drop (off + 1) msg)))"
        by (simp add: qname.simps [of msg off sb] add_label_def Let_def)
      also have "\<dots> = map_option (\<lambda>(n, r). (n, length msg - length r))
          (labels (drop (off + 1 + ?l) msg) (add_label sb (take ?l (drop (off + 1) msg))))"
        using "1.IH" [OF _ refl] False True by (simp add: add_label_def)
      also have "labels (drop (off + 1 + ?l) msg) (add_label sb (take ?l (drop (off + 1) msg)))
          = labels (drop off msg) sb"
        using False True by (auto simp: drop labels_Cons add.commute Let_def)
      finally show ?thesis .
    qed
  qed
qed

text \<open>A name occupies a prefix of the rest, whatever follows it.\<close>

lemma labels_prefix:
  "labels s sb = Some (n, r) \<Longrightarrow> \<exists>c. c \<noteq> [] \<and> s = c @ r \<and> (\<forall>r'. labels (c @ r') sb = Some (n, r'))"
proof (induction s sb arbitrary: n r rule: labels.induct)
  case (1 s sb)
  from "1.prems" obtain ch t where s: "s = ch # t" by (cases s) auto
  let ?l = "of_char ch :: nat"
  show ?case
  proof (cases "?l = 0")
    case True
    with "1.prems" s show ?thesis
      by (intro exI [of _ "[ch]"]) (auto simp: labels_Cons)
  next
    case False
    with "1.prems" s have l: "?l AND 0xC0 = 0" "?l \<le> length t"
      and rest: "labels (drop ?l t) (add_label sb (take ?l t)) = Some (n, r)"
      by (auto simp: labels_Cons Let_def split: if_splits)
    have "\<exists>c. c \<noteq> [] \<and> drop ?l t = c @ r
        \<and> (\<forall>r'. labels (c @ r') (add_label sb (take ?l t)) = Some (n, r'))"
      by (rule "1.IH" [OF s refl False _ rest]) (use l in simp)
    then obtain c where c: "drop ?l t = c @ r"
      "\<forall>r'. labels (c @ r') (add_label sb (take ?l t)) = Some (n, r')"
      by blast
    have t: "t = take ?l t @ c @ r"
      using c(1) by (metis append_take_drop_id)
    have "labels ((ch # take ?l t @ c) @ r') sb = Some (n, r')" for r'
      using False l c(2) by (simp add: labels_Cons Let_def)
    with s t show ?thesis by (intro exI [of _ "ch # take ?l t @ c"]) simp
  qed
qed

subsection \<open>The question parser\<close>

text \<open>The name part of a question: bytes that read as one name whatever follows.\<close>

definition wire_name :: "bytes \<Rightarrow> string \<Rightarrow> bool" where
  "wire_name c n = (c \<noteq> [] \<and> (\<forall>r. labels (c @ r) [] = Some (n, r)))"

lemma parseDNSQuestion_intro:
  assumes "length hdr = 12" "1 \<le> Uint16 (take 2 (drop 4 hdr))" "wire_name c n"
    and "length tq = 2" "length tc = 2"
  shows "parseDNSQuestion lw (hdr @ c @ tq @ tc @ rest) =
    Some (ToLower lw n, Uint16 tq, 16 + length c)"
proof -
  let ?msg = "hdr @ c @ tq @ tc @ rest"
  have "labels (drop 12 ?msg) [] = Some (n, tq @ tc @ rest)"
    using assms(1,3) by (simp add: wire_name_def)
  then have "qname ?msg 12 [] = Some (n, 12 + length c)"
    using assms by (simp add: qname_labels)
  moreover have "take 2 (drop (12 + length c) ?msg) = tq"
    using assms(1,4) by simp
  moreover have "take 2 (drop 4 ?msg) = take 2 (drop 4 hdr)"
    using assms(1) by simp
  ultimately show ?thesis
    using assms by (simp add: parseDNSQuestion_def)
qed

lemma parseDNSQuestion_cases:
  assumes "parseDNSQuestion lw msg = Some (name, qtype, qend)"
  obtains hdr c tq tc rest n where
    "msg = hdr @ c @ tq @ tc @ rest" "length hdr = 12" "1 \<le> Uint16 (take 2 (drop 4 hdr))"
    "wire_name c n" "length tq = 2" "length tc = 2"
    "name = ToLower lw n" "qtype = Uint16 tq" "qend = 16 + length c"
proof -
  from assms obtain n off where
    len: "12 \<le> length msg" and count: "1 \<le> Uint16 (take 2 (drop 4 msg))"
    and qn: "qname msg 12 [] = Some (n, off)" and off: "off + 4 \<le> length msg"
    and res: "name = ToLower lw n" "qtype = Uint16 (take 2 (drop off msg))" "qend = off + 4"
    by (auto simp: parseDNSQuestion_def split: if_splits option.splits)
  from qn obtain r where lab: "labels (drop 12 msg) [] = Some (n, r)"
    and off_r: "off = length msg - length r"
    by (auto simp: qname_labels)
  from labels_prefix [OF lab] obtain c where
    c: "c \<noteq> []" "drop 12 msg = c @ r" "\<forall>r'. labels (c @ r') [] = Some (n, r')"
    by blast
  have msg: "msg = take 12 msg @ c @ r"
    using c(2) by (metis append_take_drop_id)
  have "length msg = 12 + length c + length r"
    using arg_cong [OF msg, of length] len by simp
  with off_r have off_c: "off = 12 + length c" and r4: "4 \<le> length r"
    using off by auto
  have r: "r = take 2 r @ take 2 (drop 2 r) @ drop 4 r"
    by (metis append_take_drop_id drop_drop numeral_Bit0)
  show thesis
  proof (rule that)
    show "msg = take 12 msg @ c @ take 2 r @ take 2 (drop 2 r) @ drop 4 r"
      using msg r by metis
    show "wire_name c n" using c by (simp add: wire_name_def)
    show "1 \<le> Uint16 (take 2 (drop 4 (take 12 msg)))"
      using count by (simp add: drop_take)
    have "drop off msg = r"
      using msg off_c len by (metis append_eq_conv_conj append_assoc length_append length_take
          min.absorb2)
    then show "qtype = Uint16 (take 2 r)" using res by simp
  qed (use len r4 res off_c in auto)
qed

subsection \<open>Names on the wire\<close>

definition label_ok :: "string \<Rightarrow> bool" where
  "label_ok w = (1 \<le> length w \<and> length w \<le> 63)"

definition encode_name :: "string list \<Rightarrow> bytes" where
  "encode_name ls = concat (map (\<lambda>w. byte_of (length w) # w) ls) @ [nul]"

lemma and_0xC0_small: "(l::nat) < 64 \<Longrightarrow> l AND 0xC0 = 0"
proof -
  assume "l < 64"
  then have "l = take_bit 6 l" by (simp add: take_bit_nat_eq_self)
  then have "l AND 0xC0 = take_bit 6 (l AND 0xC0)"
    by (metis and.assoc and.commute take_bit_eq_mask)
  also have "\<dots> = take_bit 6 l AND take_bit 6 0xC0" by simp
  also have "take_bit 6 (0xC0 :: nat) = 0" by simp
  finally show ?thesis by simp
qed

lemma labels_encode:
  "list_all label_ok ls \<Longrightarrow> labels (encode_name ls @ r) sb = Some (foldl add_label sb ls, r)"
proof (induction ls arbitrary: sb)
  case Nil
  then show ?case by (simp add: encode_name_def labels_Cons)
next
  case (Cons w ls)
  then have "length w < 64" "length w \<noteq> 0" by (auto simp: label_ok_def)
  with Cons show ?case
    by (simp add: encode_name_def labels_Cons Let_def and_0xC0_small)
qed

lemma foldl_add_label:
  "list_all label_ok ls \<Longrightarrow> ls \<noteq> [] \<Longrightarrow> foldl add_label sb ls = add_label sb (Join ''.'' ls)"
proof (induction ls arbitrary: sb)
  case (Cons w ls)
  show ?case
  proof (cases ls)
    case (Cons v vs)
    have "w \<noteq> []" using Cons.prems by (auto simp: label_ok_def)
    with Cons Cons.IH [of "add_label sb w"] Cons.prems show ?thesis
      by (simp add: add_label_def)
  qed simp
qed simp

lemma wire_name_encode:
  "list_all label_ok ls \<Longrightarrow> wire_name (encode_name ls) (Join ''.'' ls)"
proof -
  assume ok: "list_all label_ok ls"
  have "foldl add_label [] ls = Join ''.'' ls"
    using foldl_add_label [OF ok, of "[]"] by (cases ls) (auto simp: add_label_def)
  with labels_encode [OF ok, of _ "[]"] show ?thesis
    by (simp add: wire_name_def encode_name_def)
qed

text \<open>C30: the question parser inverts the wire encoding: on a message whose header announces a
  question and whose question is an encoded name with labels of 1 to 63 bytes, it returns the
  labels joined by dots in lower case, the query type and the offset just past the question,
  whatever the class and whatever follows.\<close>

theorem parseDNSQuestion_roundtrip:
  assumes "list_all label_ok ls" "length hdr = 12" "1 \<le> Uint16 (take 2 (drop 4 hdr))"
    and "qtype < 65536" "length cls = 2"
  shows "parseDNSQuestion lw (hdr @ encode_name ls @ PutUint16 qtype @ cls @ rest) =
    Some (ToLower lw (Join ''.'' ls), qtype, 16 + length (encode_name ls))"
proof -
  have "Uint16 (PutUint16 qtype) = qtype"
    using assms(4) Uint16_Put [of qtype "[]"] by simp
  then show ?thesis
    using parseDNSQuestion_intro [OF assms(2,3) wire_name_encode [OF assms(1)], of
        "PutUint16 qtype" cls lw rest] assms(5) by simp
qed

definition demo_header :: bytes where
  "demo_header = [CHR 0x12, CHR 0x34, CHR 0x01, CHR 0x00, CHR 0x00, CHR 0x01,
     CHR 0x00, CHR 0x00, CHR 0x00, CHR 0x00, CHR 0x00, CHR 0x00]"

lemma demo_header_ok: "length demo_header = 12" "1 \<le> Uint16 (take 2 (drop 4 demo_header))"
  by code_simp+

theorem parseDNSQuestion_roundtrip_witness:
  "parseDNSQuestion id (demo_header @ encode_name [''Core'', ''prod''] @ PutUint16 28
      @ [CHR 0x00, CHR 0x01] @ []) = Some (''core.prod'', 28, 27)"
proof -
  have "ToLower id ''Core.prod'' = ''core.prod''"
    by code_simp
  then show ?thesis
    using parseDNSQuestion_roundtrip [of "[''Core'', ''prod'']" demo_header 28
        "[CHR 0x00, CHR 0x01]" id "[]"] demo_header_ok
    by (simp add: label_ok_def encode_name_def)
qed

lemma parseDNSQuestion_bounds_aux:
  assumes "parseDNSQuestion lw msg = Some (name, qtype, qend)"
  shows "17 \<le> qend \<and> qend \<le> length msg \<and> qtype < 65536"
proof -
  from assms obtain hdr c tq tc r n where
    m: "msg = hdr @ c @ tq @ tc @ r" "length hdr = 12" "wire_name c n" "length tq = 2"
    "length tc = 2" "qtype = Uint16 tq" "qend = 16 + length c"
    by (rule parseDNSQuestion_cases)
  moreover from m(3) have "1 \<le> length c" by (cases c) (auto simp: wire_name_def)
  ultimately show ?thesis using Uint16_less [of tq] by simp
qed

text \<open>C31: the parser never reads out of bounds and never loops: on every message it either
  refuses or returns an end offset between the smallest question (17 bytes with its header)
  and the length of the message, and a query type of 16 bits; the bytes past that offset do
  not influence it.\<close>

theorem parseDNSQuestion_bounds:
  assumes "parseDNSQuestion lw msg = Some (name, qtype, qend)"
  shows "17 \<le> qend \<and> qend \<le> length msg \<and> qtype < 65536
    \<and> parseDNSQuestion lw (take qend msg @ rest) = Some (name, qtype, qend)"
proof -
  from assms obtain hdr c tq tc r n where
    m: "msg = hdr @ c @ tq @ tc @ r" "length hdr = 12" "1 \<le> Uint16 (take 2 (drop 4 hdr))"
    "wire_name c n" "length tq = 2" "length tc = 2"
    "name = ToLower lw n" "qtype = Uint16 tq" "qend = 16 + length c"
    by (rule parseDNSQuestion_cases)
  have "take qend msg @ rest = hdr @ c @ tq @ tc @ rest"
    using m by simp
  then show ?thesis
    using m parseDNSQuestion_intro [OF m(2-6), of lw rest] parseDNSQuestion_bounds_aux [OF assms]
    by simp
qed

theorem parseDNSQuestion_bounds_witness:
  "17 \<le> (27::nat) \<and> 27 \<le> length (demo_header @ encode_name [''core'', ''prod''] @ PutUint16 28
      @ [CHR 0x00, CHR 0x01])"
proof -
  have "parseDNSQuestion id (demo_header @ encode_name [''core'', ''prod''] @ PutUint16 28
      @ [CHR 0x00, CHR 0x01]) = Some (''core.prod'', 28, 27)" by code_simp
  from parseDNSQuestion_bounds [OF this] show ?thesis by simp
qed

end
