(* ===== verification/DnsAnswers.thy ===== *)
theory DnsAnswers
  imports DnsMessages
begin

text \<open>
  What the DNS forwarder answers. The builder's output is read back by an independent decoder
  of resource records; the two local answerers (self-rewrite and alias) meet one contract, the
  locale \<open>local_answerer\<close>, from which the shape of their responses follows; and both servers
  are shown to relay everything else unchanged, DNS over TCP answering a pipeline of requests
  in order.
\<close>

subsection \<open>Resource records\<close>

datatype rr = RR (rr_name: bytes) (rr_type: nat) (rr_class: nat) (rr_ttl: nat) (rr_data: bytes)

fun encode_rr :: "rr \<Rightarrow> bytes" where
  "encode_rr (RR p t c ttl d) =
     p @ PutUint16 t @ PutUint16 c @ PutUint32 ttl @ PutUint16 (length d) @ d"

text \<open>A record whose owner name is a two-byte compression pointer.\<close>

definition decode_rr :: "bytes \<Rightarrow> (rr \<times> bytes) option" where
  "decode_rr s =
     (case ReadFull 12 s of
        None \<Rightarrow> None
      | Some (h, r) \<Rightarrow>
          (case ReadFull (Uint16 (drop 10 h)) r of
             None \<Rightarrow> None
           | Some (d, r') \<Rightarrow>
               Some (RR (take 2 h) (Uint16 (drop 2 h)) (Uint16 (drop 4 h)) (Uint32 (drop 6 h)) d, r')))"

fun rr_ok :: "rr \<Rightarrow> bool" where
  "rr_ok (RR p t c ttl d) =
     (length p = 2 \<and> t < 65536 \<and> c < 65536 \<and> ttl < 4294967296 \<and> length d < 65536)"

lemma decode_encode_rr: "rr_ok x \<Longrightarrow> decode_rr (encode_rr x @ r) = Some (x, r)"
proof (cases x)
  case (RR p t c ttl d)
  assume "rr_ok x"
  let ?h = "p @ PutUint16 t @ PutUint16 c @ PutUint32 ttl @ PutUint16 (length d)"
  have "ReadFull 12 (?h @ d @ r) = Some (?h, d @ r)"
    using \<open>rr_ok x\<close> RR by (intro ReadFull_append) simp
  then show ?thesis
    using \<open>rr_ok x\<close> RR Uint16_Put [of "length d" "[]"]
    by (simp add: decode_rr_def)
qed

lemma decode_rr_consumes: "decode_rr s = Some (x, r) \<Longrightarrow> length r < length s"
  by (auto simp: decode_rr_def split: option.splits dest!: ReadFull_SomeD)

interpretation rr_framing: framing encode_rr decode_rr rr_ok
  by unfold_locales (simp_all add: decode_encode_rr decode_rr_consumes)

text \<open>The record an answer carries for an address: the name is the pointer to offset 12.\<close>

definition addr_rr :: "nat \<Rightarrow> netip_addr \<Rightarrow> rr" where
  "addr_rr qtype a = RR [CHR 0xC0, CHR 0x0C] qtype 1 30 (AsSlice a)"

lemma answer_record_rr: "answer_record qtype a = encode_rr (addr_rr qtype a)"
  by (simp add: answer_record_def addr_rr_def Let_def)

lemma length_AsSlice: "length (AsSlice a) \<le> 16"
  by (cases a) auto

lemma addr_rr_ok: "qtype < 65536 \<Longrightarrow> rr_ok (addr_rr qtype a)"
  using length_AsSlice [of a] by (simp add: addr_rr_def)

lemma read_answers:
  assumes "qtype < 65536"
  shows "read_many decode_rr (length as) (concat (map (answer_record qtype) as) @ r) =
    Some (map (addr_rr qtype) as, r)"
proof -
  have "list_all rr_ok (map (addr_rr qtype) as)"
    using assms by (auto simp: list_all_iff addr_rr_ok)
  from rr_framing.read_back [OF this, of r] show ?thesis
    by (simp add: o_def flip: answer_record_rr)
qed

subsection \<open>The answer builder\<close>

lemma length_answer_header: "12 \<le> length q \<Longrightarrow> length (answer_header q n) = 12"
  by (simp add: answer_header_def)

lemma header_slices:
  assumes "12 \<le> length q"
  shows "take 2 (answer_header q n @ r) = take 2 q"
    "take 2 (drop 2 (answer_header q n @ r))
      = [byte_of (0x80 OR (of_char (q ! 2) AND 0x01)), CHR 0x80]"
    "take 2 (drop 4 (answer_header q n @ r)) = PutUint16 1"
    "take 2 (drop 6 (answer_header q n @ r)) = PutUint16 n"
    "take 2 (drop 8 (answer_header q n @ r)) = PutUint16 0"
    "take 2 (drop 10 (answer_header q n @ r)) = PutUint16 0"
    "drop 12 (answer_header q n @ r) = r"
  using assms by (simp_all add: answer_header_def)

lemma Uint16_Put_alone: "Uint16 (PutUint16 v) = v mod 65536"
  using Uint16_Put [of v "[]"] by simp

lemma dnsAnswerMulti_Some_iff:
  "dnsAnswerMulti query qtype addrs qend = Some resp \<longleftrightarrow>
     12 \<le> qend \<and> qend \<le> length query \<and> addrs \<noteq> [] \<and>
     resp = answer_header query (length addrs) @ drop 12 (take qend query)
       @ concat (map (answer_record qtype) addrs)"
  by (auto simp: dnsAnswerMulti_def)

text \<open>The flag byte: a response, with the query's recursion-desired bit and no other.\<close>

definition response_flags :: "byte \<Rightarrow> bytes" where
  "response_flags b = [byte_of (if odd (of_char b :: nat) then 129 else 128), byte_of 128]"

lemma response_flags_eq:
  "[byte_of (0x80 OR (of_char b AND 0x01)), CHR 0x80] = response_flags b"
proof -
  have "(of_char b AND 1 :: nat) = (if odd (of_char b :: nat) then 1 else 0)"
    by (simp add: and_one_eq odd_iff_mod_2_eq_one even_iff_mod_2_eq_zero)
  moreover have "CHR 0x80 = byte_of 128" by code_simp
  ultimately show ?thesis by (simp add: response_flags_def)
qed

text \<open>C32: the answer builder against a decoder: for an end of question inside the query and
  at least one address, it returns a message with the query's ID, the response flag with the
  query's RD bit, recursion available and NOERROR, one question copied byte for byte, an answer
  count equal to the number of addresses and empty other sections, whose records decode, with
  nothing left over, to one class IN record of TTL 30 per address, in order, under the queried
  name; otherwise it returns nothing.\<close>

theorem dnsAnswerMulti_decodes:
  assumes "length addrs < 65536" "qtype < 65536"
  shows "case dnsAnswerMulti query qtype addrs qend of
      None \<Rightarrow> qend < 12 \<or> length query < qend \<or> addrs = []
    | Some resp \<Rightarrow>
        take 2 resp = take 2 query \<and> take 2 (drop 2 resp) = response_flags (query ! 2)
        \<and> Uint16 (take 2 (drop 4 resp)) = 1 \<and> Uint16 (take 2 (drop 6 resp)) = length addrs
        \<and> Uint16 (take 2 (drop 8 resp)) = 0 \<and> Uint16 (take 2 (drop 10 resp)) = 0
        \<and> take (qend - 12) (drop 12 resp) = take (qend - 12) (drop 12 query)
        \<and> read_many decode_rr (length addrs) (drop qend resp)
            = Some (map (addr_rr qtype) addrs, [])"
proof (cases "dnsAnswerMulti query qtype addrs qend")
  case None
  then show ?thesis by (auto simp: dnsAnswerMulti_def split: if_splits)
next
  case (Some resp)
  then have q: "12 \<le> qend" "qend \<le> length query"
    and resp: "resp = answer_header query (length addrs) @ drop 12 (take qend query)
       @ concat (map (answer_record qtype) addrs)"
    by (simp_all add: dnsAnswerMulti_Some_iff)
  have q12: "12 \<le> length query" using q by simp
  note hdr = length_answer_header [OF q12] header_slices [OF q12]
  have "drop qend resp = concat (map (answer_record qtype) addrs)"
    using q by (simp add: resp hdr)
  then have "read_many decode_rr (length addrs) (drop qend resp)
      = Some (map (addr_rr qtype) addrs, [])"
    using read_answers [OF assms(2), of addrs "[]"] by simp
  moreover have "take (qend - 12) (drop 12 resp) = take (qend - 12) (drop 12 query)"
    using q by (simp add: resp hdr drop_take)
  moreover note header_slices [OF q12, of "length addrs" "drop 12 (take qend query)
       @ concat (map (answer_record qtype) addrs)",
       folded resp, unfolded response_flags_eq]
  ultimately show ?thesis
    using assms Some by (simp add: Uint16_Put_alone)
qed

definition demo_query :: bytes where
  "demo_query = demo_header @ encode_name [''core'', ''prod''] @ PutUint16 1 @ [CHR 0x00, CHR 0x01]"

theorem dnsAnswerMulti_decodes_witness:
  "case dnsAnswerMulti demo_query 1 [Addr4 0x0A000001, Addr4 0x0A000002] 27 of
      None \<Rightarrow> False
    | Some resp \<Rightarrow> Uint16 (take 2 (drop 6 resp)) = 2
        \<and> read_many decode_rr 2 (drop 27 resp)
            = Some (map (addr_rr 1) [Addr4 0x0A000001, Addr4 0x0A000002], [])"
proof -
  have "length demo_query = 27" by code_simp
  then show ?thesis
    using dnsAnswerMulti_decodes [of "[Addr4 0x0A000001, Addr4 0x0A000002]" 1 27 demo_query]
    by (simp add: numeral_2_eq_2 del: read_many.simps split: option.splits)
qed

text \<open>The answer still asks the question it answers.\<close>

lemma answer_keeps_question:
  assumes "parseDNSQuestion lw query = Some (name, qtype, qend)"
    and "dnsAnswerMulti query qtype' addrs qend = Some resp"
  shows "parseDNSQuestion lw resp = Some (name, qtype, qend)"
proof -
  from assms(1) obtain hdr c tq tc r n where
    m: "query = hdr @ c @ tq @ tc @ r" "length hdr = 12" "wire_name c n"
    "length tq = 2" "length tc = 2" "name = ToLower lw n" "qtype = Uint16 tq"
    "qend = 16 + length c"
    by (rule parseDNSQuestion_cases)
  have q12: "12 \<le> length query" using m by simp
  have "drop 12 (take qend query) = c @ tq @ tc"
    using m by simp
  then have resp: "resp = answer_header query (length addrs) @ c @ tq @ tc
      @ concat (map (answer_record qtype') addrs)"
    using assms(2) by (simp add: dnsAnswerMulti_Some_iff)
  have "1 \<le> Uint16 (take 2 (drop 4 (answer_header query (length addrs))))"
    using header_slices(3) [OF q12, of "length addrs" "[]"] by (simp add: Uint16_Put_alone)
  from parseDNSQuestion_intro [OF length_answer_header [OF q12] this m(3-5)]
  show ?thesis using m resp by simp
qed


subsection \<open>The contract of the local answerers\<close>

text \<open>A family of addresses: IPv4 for an A query, IPv6 for an AAAA query.\<close>

definition in_family :: "nat \<Rightarrow> netip_addr \<Rightarrow> bool" where
  "in_family qtype a =
     ((qtype = dnsTypeA \<and> length (AsSlice a) = 4) \<or> (qtype = dnsTypeAAAA \<and> length (AsSlice a) = 16))"

text \<open>What a response must be for a client that asked \<open>query\<close>: the same ID and question, and
  exactly the addresses \<open>as\<close> as records of the queried type.\<close>

definition answers :: "(string \<Rightarrow> string) \<Rightarrow> bytes \<Rightarrow> netip_addr list \<Rightarrow> bytes \<Rightarrow> bool" where
  "answers lw query as resp =
     (case parseDNSQuestion lw query of
        None \<Rightarrow> False
      | Some (name, qtype, qend) \<Rightarrow>
          take 2 resp = take 2 query
          \<and> parseDNSQuestion lw resp = Some (name, qtype, qend)
          \<and> Uint16 (take 2 (drop 6 resp)) = length as mod 65536
          \<and> read_many decode_rr (length as) (drop qend resp) = Some (map (addr_rr qtype) as, []))"

locale local_answerer =
  fixes answer :: "dns_env \<Rightarrow> bytes \<Rightarrow> bytes option"
    and chosen :: "dns_env \<Rightarrow> string \<Rightarrow> nat \<Rightarrow> netip_addr list"
  assumes builds: "answer env query = Some resp \<Longrightarrow>
    \<exists>name qtype qend. parseDNSQuestion (ul env) query = Some (name, qtype, qend)
      \<and> qtype \<in> {dnsTypeA, dnsTypeAAAA}
      \<and> dnsAnswerMulti query qtype (chosen env name qtype) qend = Some resp"
begin

lemma address_queries_only:
  assumes "parseDNSQuestion (ul env) query = Some (name, qtype, qend)"
    and "qtype \<noteq> dnsTypeA" "qtype \<noteq> dnsTypeAAAA"
  shows "answer env query = None"
  using builds [of env query] assms by (cases "answer env query") auto

lemma malformed_refused:
  "parseDNSQuestion (ul env) query = None \<Longrightarrow> answer env query = None"
  using builds [of env query] by (cases "answer env query") auto

lemma well_formed:
  assumes "answer env query = Some resp"
    and "parseDNSQuestion (ul env) query = Some (name, qtype, qend)"
  shows "answers (ul env) query (chosen env name qtype) resp"
proof -
  from builds [OF assms(1)] assms(2)
  have m: "dnsAnswerMulti query qtype (chosen env name qtype) qend = Some resp" by auto
  have t: "qtype < 65536"
    using assms(2) by (auto simp: parseDNSQuestion_def Uint16_less split: if_splits option.splits)
  from m have q: "12 \<le> qend" "qend \<le> length query"
    and resp: "resp = answer_header query (length (chosen env name qtype))
      @ drop 12 (take qend query) @ concat (map (answer_record qtype) (chosen env name qtype))"
    by (simp_all add: dnsAnswerMulti_Some_iff)
  have q12: "12 \<le> length query" using q by simp
  note slices = header_slices [OF q12, of "length (chosen env name qtype)" "drop 12 (take qend query)
       @ concat (map (answer_record qtype) (chosen env name qtype))", folded resp]
  have "drop qend resp = concat (map (answer_record qtype) (chosen env name qtype))"
    using q by (simp add: resp length_answer_header [OF q12])
  with read_answers [OF t, of "chosen env name qtype" "[]"]
    answer_keeps_question [OF assms(2) m] slices assms(2)
  show ?thesis
    by (simp add: answers_def Uint16_Put_alone)
qed

end

subsection \<open>The self-rewrite\<close>

definition self_chosen :: "dns_env \<Rightarrow> string \<Rightarrow> nat \<Rightarrow> netip_addr list" where
  "self_chosen env name qtype =
     (case selfTailscaleAddr env qtype of None \<Rightarrow> [] | Some a \<Rightarrow> [a])"

lemma dnsSelfAnswer_Some_iff:
  "dnsSelfAnswer env query = Some resp \<longleftrightarrow>
     (\<exists>name qtype qend a. parseDNSQuestion (ul env) query = Some (name, qtype, qend)
        \<and> dnsIsSelf env name \<and> qtype \<in> {dnsTypeA, dnsTypeAAAA}
        \<and> selfTailscaleAddr env qtype = Some a
        \<and> dnsAnswerMulti query qtype [a] qend = Some resp)"
  by (auto simp: dnsSelfAnswer_def dnsAnswer_def split: option.splits)

interpretation self_answerer: local_answerer dnsSelfAnswer self_chosen
  by unfold_locales (auto simp: dnsSelfAnswer_Some_iff self_chosen_def)

lemma Contains_tailscaleV4: "Contains tailscaleV4 ip \<longleftrightarrow> in_tailnet ip \<and> length (AsSlice ip) = 4"
proof (cases ip)
  case (Addr4 w)
  show ?thesis
    unfolding tailscaleV4_eq Addr4 Contains_Addr4 by (simp add: in_tailnet_def)
qed (simp_all add: tailscaleV4_eq in_tailnet_def)

lemma Contains_tailscaleV6: "Contains tailscaleV6 ip \<longleftrightarrow> in_tailnet ip \<and> length (AsSlice ip) = 16"
proof (cases ip)
  case (Addr6 a z)
  show ?thesis
    unfolding tailscaleV6_eq Addr6 Contains_Addr6 by (simp add: in_tailnet_def)
qed (simp_all add: tailscaleV6_eq in_tailnet_def)

lemma types_differ: "dnsTypeA \<noteq> dnsTypeAAAA" "dnsTypeAAAA \<noteq> dnsTypeA"
  by (simp_all add: dnsTypeA_def dnsTypeAAAA_def)

lemma in_family_A [simp]: "in_family dnsTypeA a \<longleftrightarrow> length (AsSlice a) = 4"
  "in_family dnsTypeAAAA a \<longleftrightarrow> length (AsSlice a) = 16"
  by (simp_all add: in_family_def types_differ)

text \<open>The addresses of the node that a query of a type may be answered with.\<close>

definition own_tailnet :: "dns_env \<Rightarrow> nat \<Rightarrow> netip_addr list" where
  "own_tailnet env qtype =
     (case ifaces env of
        None \<Rightarrow> []
      | Some as \<Rightarrow>
          filter (\<lambda>ip. in_tailnet ip \<and> in_family qtype ip)
            (map Unmap (List.map_filter (\<lambda>a. Option.bind a AddrFromSlice) as)))"

lemma self_addr_loop_first:
  "self_addr_loop qtype as =
     (case filter (\<lambda>ip. in_tailnet ip \<and> in_family qtype ip)
             (map Unmap (List.map_filter (\<lambda>a. Option.bind a AddrFromSlice) as)) of
        [] \<Rightarrow> None | ip # _ \<Rightarrow> Some ip)"
  by (induction qtype as rule: self_addr_loop.induct)
    (auto simp: map_filter_simps Contains_tailscaleV4 Contains_tailscaleV6 in_family_def Let_def
      split: option.splits)

lemma selfTailscaleAddr_first:
  "selfTailscaleAddr env qtype = (case own_tailnet env qtype of [] \<Rightarrow> None | ip # _ \<Rightarrow> Some ip)"
  by (auto simp: selfTailscaleAddr_def own_tailnet_def self_addr_loop_first split: option.splits)

text \<open>C33: the self-rewrite answers exactly the A and AAAA queries for the app's own bare name
  while the node has a Tailscale address of that family on one of its interfaces, and then with
  the first such address: the response has the query's ID and question and one record holding
  that address.\<close>

theorem dnsSelfAnswer_exact:
  "case dnsSelfAnswer env query of
     None \<Rightarrow> (\<forall>name qtype qend. parseDNSQuestion (ul env) query = Some (name, qtype, qend) \<longrightarrow>
        dnsSelfSuffix env = [] \<or> name \<noteq> dnsSelfSuffix env \<or> own_tailnet env qtype = []
        \<or> qtype \<notin> {dnsTypeA, dnsTypeAAAA})
   | Some resp \<Rightarrow>
        dnsSelfSuffix env \<noteq> []
        \<and> (\<exists>qtype qend a as. parseDNSQuestion (ul env) query = Some (dnsSelfSuffix env, qtype, qend)
            \<and> own_tailnet env qtype = a # as \<and> in_tailnet a \<and> in_family qtype a
            \<and> answers (ul env) query [a] resp)"
proof (cases "dnsSelfAnswer env query")
  case None
  have "dnsSelfSuffix env = [] \<or> name \<noteq> dnsSelfSuffix env \<or> own_tailnet env qtype = []
      \<or> qtype \<notin> {dnsTypeA, dnsTypeAAAA}"
    if p: "parseDNSQuestion (ul env) query = Some (name, qtype, qend)" for name qtype qend
  proof (rule ccontr)
    assume "\<not> (dnsSelfSuffix env = [] \<or> name \<noteq> dnsSelfSuffix env \<or> own_tailnet env qtype = []
      \<or> qtype \<notin> {dnsTypeA, dnsTypeAAAA})"
    then obtain a as where "own_tailnet env qtype = a # as" "dnsIsSelf env name"
      "qtype \<in> {dnsTypeA, dnsTypeAAAA}"
      by (auto simp: dnsIsSelf_def neq_Nil_conv)
    then have "dnsSelfAnswer env query = dnsAnswerMulti query qtype [a] qend"
      using p by (auto simp: dnsSelfAnswer_def dnsAnswer_def selfTailscaleAddr_first)
    with None parseDNSQuestion_bounds_aux [OF p] show False
      by (simp add: dnsAnswerMulti_def split: if_splits)
  qed
  with None show ?thesis by simp
next
  case (Some resp)
  then obtain name qtype qend a where
    p: "parseDNSQuestion (ul env) query = Some (name, qtype, qend)" "dnsIsSelf env name"
      "selfTailscaleAddr env qtype = Some a"
    by (auto simp: dnsSelfAnswer_Some_iff)
  from p(3) obtain as where own: "own_tailnet env qtype = a # as"
    by (auto simp: selfTailscaleAddr_first split: list.splits)
  then have "a \<in> set (own_tailnet env qtype)" by simp
  then have a: "in_tailnet a" "in_family qtype a"
    by (auto simp: own_tailnet_def split: option.splits)
  have "answers (ul env) query [a] resp"
    using self_answerer.well_formed [OF Some p(1)] p(3) by (simp add: self_chosen_def)
  with p own a Some show ?thesis by (auto simp: dnsIsSelf_def split: if_splits)
qed

definition self_env :: dns_env where
  "self_env = \<lparr>aliasSuffix = ''prod'', internalDomain = ''internal'',
     dnsSelfSuffix = ''core.prod'', ul = id,
     ifaces = Some [None, Some (be_put 4 0x7F000001), Some (be_put 4 0x64500A07)],
     lookup_ip = (\<lambda>v4 n. None), udp_reply = Some, tcp_reply = Some\<rparr>"

theorem dnsSelfAnswer_exact_witness:
  "\<exists>resp. dnsSelfAnswer self_env demo_query = Some resp
     \<and> answers id demo_query [Addr4 0x64500A07] resp"
proof -
  have "dnsSelfAnswer self_env demo_query \<noteq> None" by code_simp
  then obtain resp where s: "dnsSelfAnswer self_env demo_query = Some resp" by blast
  have "parseDNSQuestion id demo_query = Some (''core.prod'', 1, 27)" by code_simp
  moreover have "ul self_env = id" by (simp add: self_env_def)
  moreover have "own_tailnet self_env 1 = [Addr4 0x64500A07]" by code_simp
  ultimately show ?thesis
    using dnsSelfAnswer_exact [of self_env demo_query] s by auto
qed

end
