(* ===== verification/DnsServers.thy ===== *)
theory DnsServers
  imports DnsAnswers
begin

text \<open>
  The alias scheme, the framing of DNS over TCP (an instance of \<open>framing\<close>), and the two servers:
  which queries are answered here, which are relayed, and in what order a TCP connection is
  served.
\<close>

subsection \<open>Aliases\<close>

text \<open>The alias scheme maps exactly the names \<open><short>.<alias domain>\<close> with a non-empty
  \<open><short>\<close>: the bare alias domain and every other name are not aliases, nothing is one when no
  alias domain is set, and the target is \<open><short>\<close> followed by the internal domain if there is
  one.\<close>

theorem aliasTarget_exact:
  "aliasTarget st name = Some target \<longleftrightarrow>
     aliasSuffix st \<noteq> [] \<and>
     (\<exists>short. short \<noteq> [] \<and> name = short @ ''.'' @ aliasSuffix st \<and>
        target = (if internalDomain st = [] then short else short @ ''.'' @ internalDomain st))"
proof -
  have "take (length (short @ ''.'' @ aliasSuffix st) - length (''.'' @ aliasSuffix st))
      (short @ ''.'' @ aliasSuffix st) = short" for short
    by simp
  then show ?thesis
    by (auto simp: aliasTarget_def HasSuffix_iff Let_def)
qed

definition alias_chosen :: "dns_env \<Rightarrow> string \<Rightarrow> nat \<Rightarrow> netip_addr list" where
  "alias_chosen env name qtype =
     (case aliasTarget env name of
        None \<Rightarrow> []
      | Some target \<Rightarrow>
          (case lookup_ip env (qtype = dnsTypeA) target of
             None \<Rightarrow> [] | Some ips \<Rightarrow> keep_family qtype ips))"

lemma resolveAlias_Some_iff:
  "resolveAlias env query = Some resp \<longleftrightarrow>
     (\<exists>name qtype qend target ips. parseDNSQuestion (ul env) query = Some (name, qtype, qend)
        \<and> qtype \<in> {dnsTypeA, dnsTypeAAAA} \<and> aliasTarget env name = Some target
        \<and> lookup_ip env (qtype = dnsTypeA) target = Some ips
        \<and> dnsAnswerMulti query qtype (keep_family qtype ips) qend = Some resp)"
proof -
  have "aliasTarget env name = None" if "aliasSuffix env = []" for name
    using that by (simp add: aliasTarget_def)
  then show ?thesis
    by (auto simp: resolveAlias_def Let_def dnsAnswerMulti_Some_iff split: option.splits)
qed

interpretation alias_answerer: local_answerer resolveAlias alias_chosen
  by unfold_locales (auto simp: resolveAlias_Some_iff alias_chosen_def)

lemma Is4_length: "Is4 a \<longleftrightarrow> length (AsSlice a) = 4"
  by (cases a) auto

lemma keep_family_in_family:
  "a \<in> set (keep_family qtype ips) \<Longrightarrow> a \<noteq> AddrZero \<Longrightarrow> in_family qtype a"
  by (cases a) (auto simp: keep_family_def in_family_def)

text \<open>C34: an alias query is answered exactly when it asks for an A or AAAA record of
  \<open><short>.<alias domain>\<close>, the resolver returns addresses for the internal name, and one is of
  the queried family; the response keeps the ID and the original question and holds exactly the
  resolver's addresses of that family, unmapped, in its order.\<close>

theorem resolveAlias_exact:
  "case resolveAlias env query of
     None \<Rightarrow> (\<forall>short qtype qend ips target.
        parseDNSQuestion (ul env) query = Some (short @ ''.'' @ aliasSuffix env, qtype, qend)
        \<and> qtype \<in> {dnsTypeA, dnsTypeAAAA} \<and> short \<noteq> [] \<and> aliasSuffix env \<noteq> []
        \<and> target = (if internalDomain env = [] then short else short @ ''.'' @ internalDomain env)
        \<and> lookup_ip env (qtype = dnsTypeA) target = Some ips
        \<longrightarrow> keep_family qtype ips = [])
   | Some resp \<Rightarrow>
        (\<exists>short qtype qend ips target.
           parseDNSQuestion (ul env) query = Some (short @ ''.'' @ aliasSuffix env, qtype, qend)
           \<and> qtype \<in> {dnsTypeA, dnsTypeAAAA} \<and> short \<noteq> [] \<and> aliasSuffix env \<noteq> []
           \<and> target = (if internalDomain env = [] then short else short @ ''.'' @ internalDomain env)
           \<and> lookup_ip env (qtype = dnsTypeA) target = Some ips
           \<and> answers (ul env) query (keep_family qtype ips) resp
           \<and> list_all (\<lambda>a. a = AddrZero \<or> in_family qtype a) (keep_family qtype ips))"
proof (cases "resolveAlias env query")
  case None
  have "keep_family qtype ips = []"
    if p: "parseDNSQuestion (ul env) query = Some (short @ ''.'' @ aliasSuffix env, qtype, qend)"
      and q: "qtype \<in> {dnsTypeA, dnsTypeAAAA}" "short \<noteq> []" "aliasSuffix env \<noteq> []"
      and l: "lookup_ip env (qtype = dnsTypeA)
        (if internalDomain env = [] then short else short @ ''.'' @ internalDomain env) = Some ips"
    for short qtype qend ips
  proof (rule ccontr)
    assume k: "keep_family qtype ips \<noteq> []"
    have t: "aliasTarget env (short @ ''.'' @ aliasSuffix env) = Some
        (if internalDomain env = [] then short else short @ ''.'' @ internalDomain env)"
      using q(2,3) by (auto simp: aliasTarget_def Let_def HasSuffix_iff)
    have "dnsAnswerMulti query qtype (keep_family qtype ips) qend \<noteq> None"
      using parseDNSQuestion_bounds_aux [OF p] k by (simp add: dnsAnswerMulti_def)
    with p q(1) t l None show False
      using resolveAlias_Some_iff [of env query] by fastforce
  qed
  with None show ?thesis by simp
next
  case (Some resp)
  then obtain name qtype qend target ips where
    p: "parseDNSQuestion (ul env) query = Some (name, qtype, qend)"
      "qtype \<in> {dnsTypeA, dnsTypeAAAA}" "aliasTarget env name = Some target"
      "lookup_ip env (qtype = dnsTypeA) target = Some ips"
    by (auto simp: resolveAlias_Some_iff)
  from p(3) obtain short where s: "short \<noteq> []" "aliasSuffix env \<noteq> []"
    "name = short @ ''.'' @ aliasSuffix env"
    "target = (if internalDomain env = [] then short else short @ ''.'' @ internalDomain env)"
    by (auto simp: aliasTarget_def HasSuffix_iff Let_def split: if_splits)
  have "answers (ul env) query (keep_family qtype ips) resp"
    using alias_answerer.well_formed [OF Some p(1)] p by (simp add: alias_chosen_def)
  moreover have "list_all (\<lambda>a. a = AddrZero \<or> in_family qtype a) (keep_family qtype ips)"
    using keep_family_in_family by (auto simp: list_all_iff)
  ultimately show ?thesis using Some p s by auto
qed

definition demo_env :: dns_env where
  "demo_env = \<lparr>aliasSuffix = ''prod'', internalDomain = ''internal'',
     dnsSelfSuffix = ''core.internal'', ul = id, ifaces = None,
     lookup_ip = (\<lambda>v4 n. if v4 \<and> n = ''core.internal'' then Some [Addr4 0x0A000001] else None),
     udp_reply = Some, tcp_reply = (\<lambda>b. Some b)\<rparr>"

theorem resolveAlias_exact_witness:
  "\<exists>resp. resolveAlias demo_env demo_query = Some resp
     \<and> answers id demo_query [Addr4 0x0A000001] resp"
proof -
  have "resolveAlias demo_env demo_query \<noteq> None" by code_simp
  then obtain resp where s: "resolveAlias demo_env demo_query = Some resp" by blast
  have p: "parseDNSQuestion (ul demo_env) demo_query = Some (''core.prod'', 1, 27)" by code_simp
  have env: "aliasSuffix demo_env = ''prod''" "internalDomain demo_env = ''internal''"
    "ul demo_env = id"
    "lookup_ip demo_env = (\<lambda>v4 n. if v4 \<and> n = ''core.internal'' then Some [Addr4 0x0A000001] else None)"
    by (simp_all add: demo_env_def)
  have k: "keep_family 1 [Addr4 0x0A000001] = [Addr4 0x0A000001]" by code_simp
  from resolveAlias_exact [of demo_env demo_query] s p
  obtain short ips where n: "''core.prod'' = short @ ''.'' @ ''prod''" and r:
    "lookup_ip demo_env (1 = dnsTypeA) (short @ ''.internal'') = Some ips"
    "answers (ul demo_env) demo_query (keep_family 1 ips) resp"
    by (auto simp: env(1,2))
  from n have "''core'' @ ''.prod'' = short @ ''.prod''" by simp
  then have "short = ''core''" by (simp only: append_same_eq)
  with r s k show ?thesis by (auto simp: env(3,4) split: if_splits)
qed

subsection \<open>Framing on TCP\<close>

lemma readDNSTCP_writeDNSTCP_iff:
  "readDNSTCP (writeDNSTCP m @ r) = Some (m, r) \<longleftrightarrow> length m < 65536"
proof -
  have "ReadFull 2 (writeDNSTCP m @ r) = Some (PutUint16 (length m), m @ r)"
    unfolding writeDNSTCP_def append_assoc by (rule ReadFull_append) simp
  then have e: "readDNSTCP (writeDNSTCP m @ r) = ReadFull (length m mod 65536) (m @ r)"
    by (simp add: readDNSTCP_def Uint16_Put_alone)
  show ?thesis
  proof
    assume "readDNSTCP (writeDNSTCP m @ r) = Some (m, r)"
    with e have "ReadFull (length m mod 65536) (m @ r) = Some (m, r)" by simp
    from ReadFull_SomeD [OF this] have "length m = length m mod 65536" by simp
    then show "length m < 65536" by (metis mod_less_divisor zero_less_numeral)
  qed (simp add: e)
qed

definition dns_sendable :: "bytes \<Rightarrow> bool" where
  "dns_sendable m = (length m < 65536)"

interpretation dns_framing: framing writeDNSTCP readDNSTCP dns_sendable
  by unfold_locales (simp_all add: dns_sendable_def readDNSTCP_writeDNSTCP_iff readDNSTCP_consumes)

text \<open>C35: DNS over TCP frames messages faithfully exactly up to 65535 bytes: what is written
  reads back as itself, leaving the rest of the stream, if and only if the message fits the
  16-bit length (the source converts the length without a check, so a longer answer is
  misframed); and a pipeline of messages that fit reads back one by one in order.\<close>

theorem dns_tcp_framing:
  "(readDNSTCP (writeDNSTCP m @ r) = Some (m, r) \<longleftrightarrow> length m < 65536)
   \<and> (list_all dns_sendable ms \<longrightarrow>
       read_many readDNSTCP (length ms) (concat (map writeDNSTCP ms) @ r) = Some (ms, r))"
  by (intro conjI impI readDNSTCP_writeDNSTCP_iff dns_framing.read_back)

theorem dns_tcp_framing_witness:
  "read_many readDNSTCP 2 (concat (map writeDNSTCP [''ab'', []]) @ ''z'')
     = Some ([''ab'', []], ''z'')"
  using dns_tcp_framing [of "[]" "''z''" "[''ab'', []]"]
  by (simp add: dns_sendable_def numeral_2_eq_2 del: read_many.simps)

subsection \<open>Relaying\<close>

text \<open>A query neither answerer may take: not a well-formed address query, or for another name.\<close>

definition not_ours :: "dns_env \<Rightarrow> bytes \<Rightarrow> bool" where
  "not_ours env query =
     (case parseDNSQuestion (ul env) query of
        None \<Rightarrow> True
      | Some (name, qtype, qend) \<Rightarrow>
          (qtype \<noteq> dnsTypeA \<and> qtype \<noteq> dnsTypeAAAA)
          \<or> (name \<noteq> dnsSelfSuffix env
             \<and> (aliasSuffix env = [] \<or> \<not> HasSuffix name (''.'' @ aliasSuffix env))))"

lemma not_ours_unanswered:
  assumes "not_ours env query"
  shows "dnsSelfAnswer env query = None" "resolveAlias env query = None"
proof -
  show "dnsSelfAnswer env query = None"
    using assms
    by (auto simp: not_ours_def dnsSelfAnswer_def dnsIsSelf_def split: option.splits if_splits)
  show "resolveAlias env query = None"
    using assms
    by (auto simp: not_ours_def resolveAlias_def aliasTarget_def Let_def
        split: option.splits if_splits)
qed

text \<open>C36: everything else is relayed: a datagram of at most 4096 bytes that is not an address
  query for the app's own bare name or for a name under the alias domain reaches the resolver
  byte for byte, and what comes back is the resolver's datagram up to 4096 bytes. This covers
  the names below the app's own, such as \<open><region>.<app>.internal\<close>.\<close>

theorem answerUDP_relays:
  assumes "length datagram \<le> 4096" "not_ours env datagram"
  shows "answerUDP env datagram = map_option (take 4096) (udp_reply env datagram)"
  using assms not_ours_unanswered [OF assms(2)]
  by (simp add: answerUDP_def forwardDNSUDP_def)

definition region_query :: bytes where
  "region_query = demo_header @ encode_name [''fra'', ''core'', ''internal''] @ PutUint16 28
     @ [CHR 0x00, CHR 0x01]"

theorem answerUDP_relays_witness:
  "answerUDP demo_env region_query = Some region_query"
proof -
  have "length region_query \<le> 4096" "not_ours demo_env region_query"
    by (code_simp, code_simp)
  from answerUDP_relays [OF this] \<open>length region_query \<le> 4096\<close> show ?thesis
    by (simp add: demo_env_def)
qed

subsection \<open>A TCP connection\<close>

text \<open>What the TCP server answers to one request: \<open>None\<close> ends the connection.\<close>

definition answerTCP :: "dns_env \<Rightarrow> bytes \<Rightarrow> bytes option" where
  "answerTCP env msg =
     (case dnsSelfAnswer env msg of
        Some resp \<Rightarrow> Some resp
      | None \<Rightarrow>
          (case resolveAlias env msg of
             Some resp \<Rightarrow> Some resp
           | None \<Rightarrow> forwardDNSTCP env msg))"

lemma handleDNSTCP_end: "readDNSTCP r = None \<Longrightarrow> handleDNSTCP env wok i r = []"
  by (simp add: handleDNSTCP.simps)

lemma handleDNSTCP_request:
  assumes "length m < 65536"
  shows "handleDNSTCP env wok i (writeDNSTCP m @ r) =
    (case answerTCP env m of
       None \<Rightarrow> []
     | Some resp \<Rightarrow> if wok i then writeDNSTCP resp # handleDNSTCP env wok (i + 1) r else [])"
  using assms readDNSTCP_writeDNSTCP_iff [of m r]
  by (subst handleDNSTCP.simps) (auto simp: answerTCP_def split: option.splits)

text \<open>The responses to a pipeline of requests: one each, in order, until the first request that
  cannot be answered or the first response that cannot be written.\<close>

fun pipeline :: "dns_env \<Rightarrow> (nat \<Rightarrow> bool) \<Rightarrow> nat \<Rightarrow> bytes list \<Rightarrow> bytes list" where
  "pipeline env wok i [] = []"
| "pipeline env wok i (m # ms) =
     (case answerTCP env m of
        None \<Rightarrow> []
      | Some resp \<Rightarrow> if wok i then resp # pipeline env wok (i + 1) ms else [])"

lemma handleDNSTCP_pipeline:
  "list_all dns_sendable ms \<Longrightarrow> readDNSTCP tail = None \<Longrightarrow>
     handleDNSTCP env wok i (concat (map writeDNSTCP ms) @ tail)
       = map writeDNSTCP (pipeline env wok i ms)"
  by (induction ms arbitrary: i)
    (auto simp: handleDNSTCP_end handleDNSTCP_request dns_sendable_def split: option.splits)

lemma pipeline_take:
  "\<exists>n \<le> length ms. pipeline env wok i ms = map (\<lambda>m. the (answerTCP env m)) (take n ms)
     \<and> list_all (\<lambda>m. answerTCP env m \<noteq> None) (take n ms)
     \<and> (n < length ms \<longrightarrow> answerTCP env (ms ! n) = None \<or> \<not> wok (i + n))"
proof (induction ms arbitrary: i)
  case (Cons m ms)
  show ?case
  proof (cases "answerTCP env m = None \<or> \<not> wok i")
    case True
    then show ?thesis by (intro exI [of _ 0]) (auto split: option.splits)
  next
    case False
    from Cons.IH [of "i + 1"] obtain n where "n \<le> length ms"
      "pipeline env wok (i + 1) ms = map (\<lambda>m. the (answerTCP env m)) (take n ms)"
      "list_all (\<lambda>m. answerTCP env m \<noteq> None) (take n ms)"
      "n < length ms \<longrightarrow> answerTCP env (ms ! n) = None \<or> \<not> wok (i + 1 + n)"
      by blast
    with False show ?thesis by (intro exI [of _ "Suc n"]) auto
  qed
qed simp

text \<open>C37: A TCP connection that carries well-framed requests and then ends (or stops inside a
  message) is answered in order: the responses written are the framed answers of the first
  \<open>n\<close> requests, one each, all answerable, and the server stops before the last request only at
  one it cannot answer or whose response cannot be written; when the answers fit their length
  field the client reads them back one by one.\<close>

theorem handleDNSTCP_in_order:
  assumes "list_all dns_sendable ms" "readDNSTCP tail = None"
  shows "\<exists>n \<le> length ms. \<exists>answered. answered = map (\<lambda>m. the (answerTCP env m)) (take n ms)
    \<and> list_all (\<lambda>m. answerTCP env m \<noteq> None) (take n ms)
    \<and> (n < length ms \<longrightarrow> answerTCP env (ms ! n) = None \<or> \<not> wok n)
    \<and> handleDNSTCP env wok 0 (concat (map writeDNSTCP ms) @ tail) = map writeDNSTCP answered
    \<and> (list_all dns_sendable answered \<longrightarrow>
        read_many readDNSTCP n
          (concat (handleDNSTCP env wok 0 (concat (map writeDNSTCP ms) @ tail)) @ r)
        = Some (answered, r))"
proof -
  from pipeline_take [of ms env wok 0] obtain n where n: "n \<le> length ms"
    "pipeline env wok 0 ms = map (\<lambda>m. the (answerTCP env m)) (take n ms)"
    "list_all (\<lambda>m. answerTCP env m \<noteq> None) (take n ms)"
    "n < length ms \<longrightarrow> answerTCP env (ms ! n) = None \<or> \<not> wok n"
    by auto
  let ?answered = "map (\<lambda>m. the (answerTCP env m)) (take n ms)"
  have h: "handleDNSTCP env wok 0 (concat (map writeDNSTCP ms) @ tail) = map writeDNSTCP ?answered"
    using handleDNSTCP_pipeline [OF assms] n(2) by simp
  have "list_all dns_sendable ?answered \<longrightarrow>
      read_many readDNSTCP n (concat (map writeDNSTCP ?answered) @ r) = Some (?answered, r)"
    using dns_framing.read_back [of ?answered r] n(1) by (simp only: length_map length_take
        min.absorb2) blast
  with h n show ?thesis by (intro exI [of _ n] exI [of _ ?answered] conjI) simp_all
qed

theorem handleDNSTCP_in_order_witness:
  "handleDNSTCP demo_env (\<lambda>_. True) 0 (concat (map writeDNSTCP [demo_query, region_query]) @ ''x'')
     = map (\<lambda>m. writeDNSTCP (the (answerTCP demo_env m))) [demo_query, region_query]
   \<and> the (answerTCP demo_env region_query) = region_query"
proof -
  let ?ms = "[demo_query, region_query]"
  have 1: "list_all dns_sendable ?ms" by code_simp
  have 2: "readDNSTCP ''x'' = None" by code_simp
  have 3: "answerTCP demo_env demo_query \<noteq> None" "answerTCP demo_env region_query \<noteq> None"
    by (code_simp, code_simp)
  from handleDNSTCP_in_order [OF 1 2, of demo_env "\<lambda>_. True"] obtain n where
    n: "n \<le> length ?ms" "n < length ?ms \<longrightarrow> answerTCP demo_env (?ms ! n) = None"
    and h: "handleDNSTCP demo_env (\<lambda>_. True) 0 (concat (map writeDNSTCP ?ms) @ ''x'')
      = map writeDNSTCP (map (\<lambda>m. the (answerTCP demo_env m)) (take n ?ms))"
    by auto
  have "n = 2" using n 3 by (auto simp: nth_Cons less_Suc_eq_le split: nat.splits)
  moreover have "the (answerTCP demo_env region_query) = region_query" by code_simp
  ultimately show ?thesis using h by simp
qed

end
