(* ===== verification/Caching.thy ===== *)
theory Caching
  imports Prelude
begin

text \<open>
  The contract of a cache whose entries expire a fixed time after they were stored. A call is one
  use of the cache in a world \<open>w\<close> (its clock readings and the answers it would get from outside)
  at a key; calls act on the state one after the other. Whoever keeps the contract serves no
  value older than its time to live, and serves the same value until then.
\<close>

fun play :: "('w \<Rightarrow> 'k \<Rightarrow> 's \<Rightarrow> 'r \<times> 's) \<Rightarrow> ('w \<times> 'k) list \<Rightarrow> 's \<Rightarrow> 's" where
  "play run [] s = s"
| "play run ((w, k) # cs) s = play run cs (snd (run w k s))"

lemma play_append [simp]: "play run (xs @ ys) s = play run ys (play run xs s)"
  by (induction run xs s rule: play.induct) auto

locale ttl_cache =
  fixes run :: "'w \<Rightarrow> 'k \<Rightarrow> 's \<Rightarrow> 'r \<times> 's"
    and cache :: "'s \<Rightarrow> 'k \<Rightarrow> ('v \<times> int) option"
    and checked :: "'w \<Rightarrow> int"
    and stored :: "'w \<Rightarrow> int"
    and ttl :: int
    and fetched :: "'w \<Rightarrow> 'k \<Rightarrow> 'v \<Rightarrow> bool"
    and view :: "'w \<Rightarrow> 'v \<Rightarrow> 'r"
    and useful :: "'w \<Rightarrow> 'v \<Rightarrow> bool"
  assumes hit: "cache s k = Some (v, e) \<Longrightarrow> checked w < e \<Longrightarrow> useful w v \<Longrightarrow>
      run w k s = (view w v, s)"
    and miss: "\<not> (\<exists>v e. cache s k = Some (v, e) \<and> checked w < e \<and> useful w v) \<Longrightarrow>
      run w k s = (r, s') \<Longrightarrow>
      \<exists>v. fetched w k v \<and> r = view w v
        \<and> (cache s' = (cache s)(k \<mapsto> (v, stored w + ttl)) \<or> cache s' = cache s)"
begin

text \<open>Every entry was fetched by some earlier call and expires \<open>ttl\<close> after it was stored.\<close>

lemma entries_fetched:
  assumes "\<And>k. cache s k = None" "cache (play run cs s) k = Some (v, e)"
  shows "\<exists>w. (w, k) \<in> set cs \<and> fetched w k v \<and> e = stored w + ttl"
  using assms
proof (induction cs arbitrary: k v e rule: rev_induct)
  case Nil
  then show ?case by simp
next
  case (snoc c cs)
  obtain w k0 where c: "c = (w, k0)" by (cases c)
  let ?s = "play run cs s"
  obtain r s' where run: "run w k0 ?s = (r, s')" by (cases "run w k0 ?s")
  have e: "cache s' k = Some (v, e)" using snoc.prems(2) c run by simp
  show ?case
  proof (cases "\<exists>v e. cache ?s k0 = Some (v, e) \<and> checked w < e \<and> useful w v")
    case True
    then obtain v0 e0 where "cache ?s k0 = Some (v0, e0)" "checked w < e0" "useful w v0" by blast
    from hit [OF this] run have "s' = ?s" by simp
    with e have "cache ?s k = Some (v, e)" by simp
    from snoc.IH [OF snoc.prems(1) this] show ?thesis by auto
  next
    case False
    from miss [OF this run] obtain v0 where f: "fetched w k0 v0"
      and upd: "cache s' = (cache ?s)(k0 \<mapsto> (v0, stored w + ttl)) \<or> cache s' = cache ?s"
      by blast
    show ?thesis
    proof (cases "cache s' k = cache ?s k")
      case True
      with e have "cache ?s k = Some (v, e)" by simp
      from snoc.IH [OF snoc.prems(1) this] show ?thesis by auto
    next
      case False
      then have "k = k0" "v = v0" "e = stored w + ttl"
        using upd e by (auto split: if_splits)
      with f c show ?thesis by auto
    qed
  qed
qed

lemma never_stale:
  assumes "\<And>k. cache s k = None" "fst (run w k (play run cs s)) = r"
  shows "\<exists>w' v. r = view w v \<and> fetched w' k v
    \<and> (w' = w \<or> (w', k) \<in> set cs \<and> checked w < stored w' + ttl)"
proof -
  let ?s = "play run cs s"
  obtain s' where run: "run w k ?s = (r, s')" using assms(2) by (cases "run w k ?s") simp
  show ?thesis
  proof (cases "\<exists>v e. cache ?s k = Some (v, e) \<and> checked w < e \<and> useful w v")
    case True
    then obtain v e where h: "cache ?s k = Some (v, e)" "checked w < e" "useful w v" by blast
    from entries_fetched [OF assms(1) h(1)] obtain w' where
      "(w', k) \<in> set cs" "fetched w' k v" "e = stored w' + ttl" by blast
    with hit [OF h] run h(2) show ?thesis by auto
  next
    case False
    from miss [OF this run] show ?thesis by blast
  qed
qed

text \<open>A stored value is served, without another fetch, until it expires.\<close>

lemma served_until_expiry:
  assumes "cache s k = Some (v, stored w + ttl)" "useful w' v" "checked w' < stored w + ttl"
  shows "run w' k s = (view w' v, s)"
  using hit [OF assms(1) assms(3) assms(2)] .

end

end
