(* ===== verification/Ident.thy ===== *)
theory Ident
  imports Peer Caching Startup Trace Json
begin

text \<open>
  Who a client is (\<^verbatim>\<open>src/fly.go\<close>): the reverse lookup of a Fly 6PN address, the region
  inventory, their two caches, the WhoIs query to the local tailscaled, and
  \<^verbatim>\<open>identifyClient\<close>. Times are nanoseconds; each call of \<^verbatim>\<open>time.Now()\<close> is a field of
  the record \<open>ident_world\<close>, with what the resolver and the tailscaled answer during the call.
  The \<^verbatim>\<open>sync.Map\<close> caches are maps threaded through the calls.
\<close>

record flyIdentEntry =
  ie_ident :: string
  ie_expiresAt :: int

record vmsTable =
  vt_byID :: "string \<Rightarrow> string option"
  vt_expiresAt :: int

record ident_caches =
  flyIdentCache :: "netip_addr \<Rightarrow> flyIdentEntry option"
  flyVmsCache :: "string \<Rightarrow> vmsTable option"

definition empty_caches :: ident_caches where
  "empty_caches = \<lparr>flyIdentCache = Map.empty, flyVmsCache = Map.empty\<rparr>"

definition flyCacheTTL :: int where
  "flyCacheTTL = 5 * 60 * 1000000000"

text \<open>The decoded WhoIs body: the node, by its name and tags, and the login of the user's profile,
  each absent for a nil pointer. The tags are a slice: its backing array and its length, since
  the decoder stores into the elements the array already has.\<close>

type_synonym tag_slice = "string list \<times> nat"

record whois =
  wi_node :: "(string \<times> tag_slice) option"
  wi_login :: "string option"

text \<open>\<open>lookup_addr\<close> is the reverse lookup of the address's text and \<open>lookup_txt\<close> the TXT lookup
  (\<open>None\<close> for an error); \<open>localapi\<close> is the answer to an HTTP request path: \<open>None\<close> when the
  request fails, else the status and the body, as far as it was delivered.\<close>

record ident_world =
  lookup_addr :: "netip_addr \<Rightarrow> string list option"
  lookup_txt :: "string \<Rightarrow> string list option"
  localapi :: "string \<Rightarrow> (nat \<times> bytes) option"
  t_ident_check :: int
  t_ident_store :: int
  t_vms_check :: int
  t_vms_store :: int

subsection \<open>The region inventory\<close>

definition vms_entry :: "string \<Rightarrow> (string \<Rightarrow> string option) \<Rightarrow> string \<Rightarrow> string option" where
  "vms_entry entry out =
     (case Fields (TrimSpace entry) of
        f0 # f1 # fs \<Rightarrow> out(f0 \<mapsto> f1)
      | _ \<Rightarrow> out)"

definition parseVmsTXT :: "string list \<Rightarrow> string \<Rightarrow> string option" where
  "parseVmsTXT txts = fold (\<lambda>record. fold vms_entry (Split (CHR '','') record)) txts Map.empty"

text \<open>A Go map read at a missing key gives the empty string.\<close>

definition get_str :: "(string \<Rightarrow> string option) \<Rightarrow> string \<Rightarrow> string" where
  "get_str m k = (case m k of None \<Rightarrow> [] | Some v \<Rightarrow> v)"

definition lookupFlyRegion ::
  "ident_world \<Rightarrow> string \<Rightarrow> string \<Rightarrow> ident_caches \<Rightarrow> string \<times> ident_caches" where
  "lookupFlyRegion w app ident s =
     (let cached = (case flyVmsCache s app of
          None \<Rightarrow> []
        | Some t \<Rightarrow> if t_vms_check w < vt_expiresAt t then get_str (vt_byID t) ident else []) in
      if cached \<noteq> [] then (cached, s)
      else case lookup_txt w (''vms.'' @ app @ ''.internal'') of
        None \<Rightarrow> ([], s)
      | Some txts \<Rightarrow>
          let byID = parseVmsTXT txts in
          (get_str byID ident,
           s\<lparr>flyVmsCache := (flyVmsCache s)(app \<mapsto>
               \<lparr>vt_byID = byID, vt_expiresAt = t_vms_store w + flyCacheTTL\<rparr>)\<rparr>))"

subsection \<open>The identity of a Fly client\<close>

definition resolveFlyIdent ::
  "ident_world \<Rightarrow> netip_addr \<Rightarrow> ident_caches \<Rightarrow> string \<times> ident_caches" where
  "resolveFlyIdent w ip s =
     (case lookup_addr w ip of
        None \<Rightarrow> (''fly-unknown'', s)
      | Some [] \<Rightarrow> (''fly-unknown'', s)
      | Some (name # names) \<Rightarrow>
          let parts = Split (CHR ''.'') (TrimSuffix name ''.'');
              n = length parts in
          if n < 4 \<or> parts ! (n - 1) \<noteq> ''internal'' \<or> parts ! (n - 3) \<noteq> ''vm''
          then (''fly-unknown'', s)
          else
            let ident = parts ! (n - 4); app = parts ! (n - 2) in
            if app = [] then (''fly-unknown'', s)
            else
              let (region, s') = lookupFlyRegion w app ident s in
              if region = [] then (app, s') else (region @ ''.'' @ app, s'))"

definition lookupFlyIdent ::
  "ident_world \<Rightarrow> netip_addr \<Rightarrow> ident_caches \<Rightarrow> string \<times> ident_caches" where
  "lookupFlyIdent w ip s =
     (let cached = (case flyIdentCache s ip of
          None \<Rightarrow> None
        | Some e \<Rightarrow> if t_ident_check w < ie_expiresAt e then Some (ie_ident e) else None) in
      case cached of
        Some ident \<Rightarrow> (ident, s)
      | None \<Rightarrow>
          let (ident, s') = resolveFlyIdent w ip s in
          (ident, s'\<lparr>flyIdentCache := (flyIdentCache s')(ip \<mapsto>
             \<lparr>ie_ident = ident, ie_expiresAt = t_ident_store w + flyCacheTTL\<rparr>)\<rparr>))"

subsection \<open>The identity of a Tailscale client\<close>

fun store_elements :: "json list \<Rightarrow> string list \<Rightarrow> string list option" where
  "store_elements [] array = Some array"
| "store_elements (v # vs) array =
     (case store_string v (case array of [] \<Rightarrow> [] | x # xs \<Rightarrow> x) of
        None \<Rightarrow> None
      | Some x \<Rightarrow> map_option ((#) x) (store_elements vs (tl array)))"

fun store_tags :: "json \<Rightarrow> tag_slice \<Rightarrow> tag_slice option" where
  "store_tags JNull old = Some ([], 0)"
| "store_tags (JArr []) old = Some ([], 0)"
| "store_tags (JArr (v # vs)) old =
     map_option (\<lambda>array. (array, length (v # vs))) (store_elements (v # vs) (fst old))"
| "store_tags _ old = None"

definition slice_elems :: "tag_slice \<Rightarrow> string list" where
  "slice_elems t = take (snd t) (fst t)"

definition node_member :: "string \<Rightarrow> json \<Rightarrow> string \<times> tag_slice \<Rightarrow> (string \<times> tag_slice) option" where
  "node_member key v n =
     (if field_is ''Name'' key then map_option (\<lambda>x. (x, snd n)) (store_string v (fst n))
      else if field_is ''Tags'' key then map_option (\<lambda>t. (fst n, t)) (store_tags v (snd n))
      else Some n)"

definition profile_member :: "string \<Rightarrow> json \<Rightarrow> string \<Rightarrow> string option" where
  "profile_member key v login =
     (if field_is ''LoginName'' key then store_string v login else Some login)"

text \<open>A pointer to a struct: null resets it, an object is stored into the struct it points to or
  a new one.\<close>

definition store_pointer ::
  "(string \<Rightarrow> json \<Rightarrow> 'a \<Rightarrow> 'a option) \<Rightarrow> 'a \<Rightarrow> json \<Rightarrow> 'a option \<Rightarrow> 'a option option" where
  "store_pointer f zero v old =
     (if v = JNull then Some None
      else map_option Some (store_struct f v (case old of None \<Rightarrow> zero | Some x \<Rightarrow> x)))"

definition whois_member :: "string \<Rightarrow> json \<Rightarrow> whois \<Rightarrow> whois option" where
  "whois_member key v raw =
     (if field_is ''Node'' key
      then map_option (\<lambda>n. raw\<lparr>wi_node := n\<rparr>) (store_pointer node_member ([], ([], 0)) v (wi_node raw))
      else if field_is ''UserProfile'' key
      then map_option (\<lambda>l. raw\<lparr>wi_login := l\<rparr>) (store_pointer profile_member [] v (wi_login raw))
      else Some raw)"

definition whois_Decode :: "bytes \<Rightarrow> whois option" where
  "whois_Decode body =
     (case decode_json body of
        None \<Rightarrow> None
      | Some v \<Rightarrow> store_struct whois_member v \<lparr>wi_node = None, wi_login = None\<rparr>)"

definition whoisTailscale :: "ident_world \<Rightarrow> string \<Rightarrow> string \<times> string" where
  "whoisTailscale w remoteAddr =
     (case localapi w (''/localapi/v0/whois?addr='' @ QueryEscape remoteAddr) of
        None \<Rightarrow> ([], [])
      | Some (status, body) \<Rightarrow>
          if status \<noteq> 200 then ([], [])
          else case whois_Decode body of
            None \<Rightarrow> ([], [])
          | Some raw \<Rightarrow>
              let login = (case wi_login raw of None \<Rightarrow> [] | Some l \<Rightarrow> l) in
              (case wi_node raw of
                 None \<Rightarrow> (login, [])
               | Some (name, tags) \<Rightarrow>
                   (if login = ''tagged-devices'' \<and> slice_elems tags \<noteq> []
                    then Join '','' (slice_elems tags) else login,
                    TrimSuffix name ''.'')))"

subsection \<open>identifyClient\<close>

record identity =
  id_user :: string
  id_machine :: string
  id_appName :: string
  id_fromTS :: bool

definition identifyClient ::
  "flags \<Rightarrow> ident_world \<Rightarrow> string \<Rightarrow> ident_caches \<Rightarrow> trace \<times> identity option \<times> ident_caches" where
  "identifyClient fl w remote s =
     (case classifyPeer fl remote of
        peerFly \<Rightarrow>
          let host = (case SplitHostPort remote of Inl e \<Rightarrow> [] | Inr (h, p) \<Rightarrow> h);
              ip = (case ParseAddr host of None \<Rightarrow> AddrZero | Some a \<Rightarrow> a);
              (ident, s') = lookupFlyIdent w ip s in
          ([], Some \<lparr>id_user = ident, id_machine = ''fly'', id_appName = ident, id_fromTS = False\<rparr>, s')
      | peerTailscale \<Rightarrow>
          let (login0, node0) = whoisTailscale w remote;
              login = (if login0 = [] then ''tailscale-unknown'' else login0);
              node = (if node0 = [] then ''tailscale'' else node0) in
          (if login0 = [] then [ErrorAdd ''whois-failed''] else [],
           Some \<lparr>id_user = login, id_machine = node, id_appName = login, id_fromTS = True\<rparr>, s)
      | peerReject \<Rightarrow> ([ErrorAdd ''disallowed-source''], None, s))"

subsection \<open>The two caches keep the contract\<close>

definition ident_entry :: "ident_caches \<Rightarrow> netip_addr \<Rightarrow> (string \<times> int) option" where
  "ident_entry s ip = map_option (\<lambda>e. (ie_ident e, ie_expiresAt e)) (flyIdentCache s ip)"

definition region_entry ::
  "ident_caches \<Rightarrow> string \<Rightarrow> ((string \<Rightarrow> string option) \<times> int) option" where
  "region_entry s app = map_option (\<lambda>t. (vt_byID t, vt_expiresAt t)) (flyVmsCache s app)"

text \<open>What a call would be told without its cache.\<close>

definition ident_fetched :: "ident_world \<Rightarrow> netip_addr \<Rightarrow> string \<Rightarrow> bool" where
  "ident_fetched w ip v = (\<exists>s. v = fst (resolveFlyIdent w ip s))"

definition region_fetched ::
  "ident_world \<times> string \<Rightarrow> string \<Rightarrow> (string \<Rightarrow> string option) \<Rightarrow> bool" where
  "region_fetched wi app v =
     (case lookup_txt (fst wi) (''vms.'' @ app @ ''.internal'') of
        None \<Rightarrow> v = Map.empty
      | Some txts \<Rightarrow> v = parseVmsTXT txts)"

lemma lookupFlyRegion_idents [simp]:
  "flyIdentCache (snd (lookupFlyRegion w app i s)) = flyIdentCache s"
  by (simp add: lookupFlyRegion_def Let_def split: option.splits)

lemma resolveFlyIdent_idents [simp]:
  "flyIdentCache (snd (resolveFlyIdent w ip s)) = flyIdentCache s"
  by (auto simp: resolveFlyIdent_def Let_def split_beta split: option.splits list.splits)

lemma ident_cache_hit:
  "ident_entry s k = Some (v, e) \<Longrightarrow> t_ident_check w < e \<Longrightarrow> lookupFlyIdent w k s = (v, s)"
  by (auto simp: ident_entry_def lookupFlyIdent_def)

lemma ident_cache_miss:
  assumes "\<not> (\<exists>v e. ident_entry s k = Some (v, e) \<and> t_ident_check w < e)"
    and "lookupFlyIdent w k s = (r, s')"
  shows "r = fst (resolveFlyIdent w k s)
    \<and> ident_entry s' = (ident_entry s)(k \<mapsto> (r, t_ident_store w + flyCacheTTL))"
  using assms resolveFlyIdent_idents [of w k s]
  by (auto simp: ident_entry_def lookupFlyIdent_def split_beta fun_eq_iff
      split: option.splits if_splits)

interpretation ident_cache: ttl_cache lookupFlyIdent ident_entry t_ident_check t_ident_store
    flyCacheTTL ident_fetched "\<lambda>w v. v" "\<lambda>w v. True"
proof unfold_locales
  fix s k and v :: string and e and w :: ident_world
  assume "ident_entry s k = Some (v, e)" "t_ident_check w < e"
  then show "lookupFlyIdent w k s = (v, s)" by (rule ident_cache_hit)
next
  fix s k r s' and w :: ident_world
  assume "\<not> (\<exists>v e. ident_entry s k = Some (v, e) \<and> t_ident_check w < e \<and> True)"
    and run: "lookupFlyIdent w k s = (r, s')"
  then have "\<not> (\<exists>v e. ident_entry s k = Some (v, e) \<and> t_ident_check w < e)" by simp
  from ident_cache_miss [OF this run]
  show "\<exists>v. ident_fetched w k v \<and> r = v \<and>
      (ident_entry s' = (ident_entry s)(k \<mapsto> (v, t_ident_store w + flyCacheTTL))
       \<or> ident_entry s' = ident_entry s)"
    by (auto simp: ident_fetched_def)
qed

lemma region_cache_hit:
  "region_entry s k = Some (v, e) \<Longrightarrow> t_vms_check w < e \<Longrightarrow> get_str v i \<noteq> [] \<Longrightarrow>
     lookupFlyRegion w k i s = (get_str v i, s)"
  by (auto simp: region_entry_def lookupFlyRegion_def)

lemma region_cache_miss:
  assumes "\<not> (\<exists>v e. region_entry s k = Some (v, e) \<and> t_vms_check w < e \<and> get_str v i \<noteq> [])"
    and "lookupFlyRegion w k i s = (r, s')"
  shows "\<exists>v. region_fetched (w, i) k v \<and> r = get_str v i \<and>
      (region_entry s' = (region_entry s)(k \<mapsto> (v, t_vms_store w + flyCacheTTL))
       \<or> region_entry s' = region_entry s)"
proof -
  have c: "(case flyVmsCache s k of None \<Rightarrow> []
      | Some t \<Rightarrow> if t_vms_check w < vt_expiresAt t then get_str (vt_byID t) i else []) = []"
    using assms(1) by (auto simp: region_entry_def split: option.splits)
  show ?thesis
  proof (cases "lookup_txt w (''vms.'' @ k @ ''.internal'')")
    case None
    with assms(2) c have "r = get_str Map.empty i" "s' = s"
      by (simp_all add: lookupFlyRegion_def get_str_def)
    with None show ?thesis by (simp add: region_fetched_def)
  next
    case (Some txts)
    with assms(2) c have r: "r = get_str (parseVmsTXT txts) i"
      and s': "s' = s\<lparr>flyVmsCache := (flyVmsCache s)(k \<mapsto>
        \<lparr>vt_byID = parseVmsTXT txts, vt_expiresAt = t_vms_store w + flyCacheTTL\<rparr>)\<rparr>"
      by (simp_all add: lookupFlyRegion_def Let_def)
    have "region_entry s' = (region_entry s)(k \<mapsto> (parseVmsTXT txts, t_vms_store w + flyCacheTTL))"
      by (rule ext) (simp add: s' region_entry_def)
    with r Some show ?thesis by (simp add: region_fetched_def)
  qed
qed

interpretation region_cache: ttl_cache "\<lambda>wi app. lookupFlyRegion (fst wi) app (snd wi)" region_entry
    "\<lambda>wi. t_vms_check (fst wi)" "\<lambda>wi. t_vms_store (fst wi)" flyCacheTTL region_fetched
    "\<lambda>wi v. get_str v (snd wi)" "\<lambda>wi v. get_str v (snd wi) \<noteq> []"
proof unfold_locales
  fix s k v e and wi :: "ident_world \<times> string"
  assume "region_entry s k = Some (v, e)" "t_vms_check (fst wi) < e" "get_str v (snd wi) \<noteq> []"
  then show "lookupFlyRegion (fst wi) k (snd wi) s = (get_str v (snd wi), s)"
    by (rule region_cache_hit)
next
  fix s k r s' and wi :: "ident_world \<times> string"
  assume "\<not> (\<exists>v e. region_entry s k = Some (v, e) \<and> t_vms_check (fst wi) < e
      \<and> get_str v (snd wi) \<noteq> [])"
    and "lookupFlyRegion (fst wi) k (snd wi) s = (r, s')"
  from region_cache_miss [OF this]
  show "\<exists>v. region_fetched wi k v \<and> r = get_str v (snd wi) \<and>
      (region_entry s' = (region_entry s)(k \<mapsto> (v, t_vms_store (fst wi) + flyCacheTTL))
       \<or> region_entry s' = region_entry s)"
    by simp
qed

subsection \<open>Freshness\<close>

text \<open>A cached identity is never older than five minutes: whatever calls came before, the
  identity a Fly address gets is one that resolving that very address returned, in this call or
  in an earlier one that stored it less than \<open>flyCacheTTL\<close> before this call's clock reading; and
  the next call reading a clock before the expiry of what this call leaves gets the same
  identity without a lookup.\<close>

theorem lookupFlyIdent_fresh:
  "let s = play lookupFlyIdent cs empty_caches; (r, s') = lookupFlyIdent w ip s in
     (\<exists>w0 s0. r = fst (resolveFlyIdent w0 ip s0)
        \<and> (w0 = w \<or> (w0, ip) \<in> set cs \<and> t_ident_check w < t_ident_store w0 + flyCacheTTL))
   \<and> (\<exists>e. flyIdentCache s' ip = Some e
        \<and> (\<forall>w'. t_ident_check w' < ie_expiresAt e \<longrightarrow> lookupFlyIdent w' ip s' = (r, s')))"
proof -
  let ?s = "play lookupFlyIdent cs empty_caches"
  obtain r s' where run: "lookupFlyIdent w ip ?s = (r, s')" by (cases "lookupFlyIdent w ip ?s")
  have empty: "\<And>k. ident_entry empty_caches k = None"
    by (simp add: ident_entry_def empty_caches_def)
  from ident_cache.never_stale [OF empty, of w ip cs r] run
  have 1: "\<exists>w0 s0. r = fst (resolveFlyIdent w0 ip s0)
      \<and> (w0 = w \<or> (w0, ip) \<in> set cs \<and> t_ident_check w < t_ident_store w0 + flyCacheTTL)"
    by (auto simp: ident_fetched_def)
  have "\<exists>e. ident_entry s' ip = Some (r, e)"
  proof (cases "\<exists>v e. ident_entry ?s ip = Some (v, e) \<and> t_ident_check w < e")
    case True
    then obtain v e where h: "ident_entry ?s ip = Some (v, e)" "t_ident_check w < e" by blast
    from ident_cache_hit [OF h] run h(1) show ?thesis by auto
  next
    case False
    from ident_cache_miss [OF this run] show ?thesis by simp
  qed
  then obtain e where e: "ident_entry s' ip = Some (r, ie_expiresAt e)"
    "flyIdentCache s' ip = Some e"
    by (auto simp: ident_entry_def)
  have "lookupFlyIdent w' ip s' = (r, s')" if "t_ident_check w' < ie_expiresAt e" for w'
    using ident_cache_hit [OF e(1) that] .
  with 1 e(2) run show ?thesis by (simp add: Let_def)
qed

definition demo_world :: ident_world where
  "demo_world = \<lparr>lookup_addr = (\<lambda>ip. Some [''d8d9.vm.billing.internal.'']),
     lookup_txt = (\<lambda>n. if n = ''vms.billing.internal'' then Some [''a1b2 sin,d8d9 fra''] else None),
     localapi = (\<lambda>p. None), t_ident_check = 0, t_ident_store = 10,
     t_vms_check = 1, t_vms_store = 5\<rparr>"

definition demo_ip :: netip_addr where
  "demo_ip = Addr6 0xfdaa00000001000200000000000000ff []"

theorem lookupFlyIdent_fresh_witness:
  "let (r, s') = lookupFlyIdent demo_world demo_ip empty_caches in
     r = ''fra.billing''
     \<and> lookupFlyIdent (demo_world\<lparr>lookup_addr := (\<lambda>ip. None), t_ident_check := 300000000009\<rparr>)
         demo_ip s' = (''fra.billing'', s')"
proof -
  obtain r s' where run: "lookupFlyIdent demo_world demo_ip empty_caches = (r, s')"
    by (cases "lookupFlyIdent demo_world demo_ip empty_caches")
  have "fst (lookupFlyIdent demo_world demo_ip empty_caches) = ''fra.billing''"
    by code_simp
  then have r: "r = ''fra.billing''" by (simp add: run)
  have e: "map_option ie_expiresAt (flyIdentCache (snd (lookupFlyIdent demo_world demo_ip empty_caches))
      demo_ip) = Some 300000000010"
    by code_simp
  from lookupFlyIdent_fresh [of "[]" demo_world demo_ip] run e show ?thesis
    by (auto simp: r)
qed

text \<open>A region is never read from a table older than five minutes: it is the region the
  inventory gives the machine in a table fetched for that very app, in this call or in an
  earlier one that stored it less than \<open>flyCacheTTL\<close> before this call's clock reading, or empty
  when the fetch failed.\<close>

theorem lookupFlyRegion_fresh:
  "let run = (\<lambda>wi app. lookupFlyRegion (fst wi) app (snd wi));
       s = play run cs empty_caches in
     \<exists>wi' table. fst (lookupFlyRegion w app i s) = get_str table i \<and> region_fetched wi' app table
       \<and> (wi' = (w, i)
          \<or> (wi', app) \<in> set cs \<and> t_vms_check w < t_vms_store (fst wi') + flyCacheTTL)"
proof -
  have empty: "\<And>k. region_entry empty_caches k = None"
    by (simp add: region_entry_def empty_caches_def)
  from region_cache.never_stale [OF empty, of "(w, i)" app cs]
  show ?thesis by (auto simp: Let_def)
qed

subsection \<open>Names of Fly machines\<close>

lemma Join_Split: "Join [sep] (Split sep s) = s"
proof (induction s)
  case (Cons c s)
  then show ?case by (cases "Split sep s") (auto elim: list.set_cases, cases "tl (Split sep s)", auto)
qed simp

lemma Split_labels: "l \<in> set (Split sep s) \<Longrightarrow> sep \<notin> set l"
  by (induction s arbitrary: l) (auto split: if_splits list.splits)

text \<open>The name of a machine: at least four labels, the last four a machine id, \<open>vm\<close>, a non-empty
  app and \<open>internal\<close>, with or without the final dot.\<close>

definition machine_name :: "string \<Rightarrow> string \<Rightarrow> string \<Rightarrow> bool" where
  "machine_name name i app \<longleftrightarrow> app \<noteq> [] \<and>
     (\<exists>pre. (\<forall>l \<in> set (pre @ [i, app]). CHR ''.'' \<notin> set l)
        \<and> (name = Join ''.'' (pre @ [i, ''vm'', app, ''internal''])
           \<or> name = Join ''.'' (pre @ [i, ''vm'', app, ''internal'']) @ ''.''))"

lemma Join_snoc: "xs \<noteq> [] \<Longrightarrow> Join sep (xs @ [x]) = Join sep xs @ sep @ x"
  by (induction sep xs rule: Join.induct) auto

lemma machine_name_labels:
  "machine_name name i app \<longleftrightarrow> app \<noteq> [] \<and>
     (\<exists>pre. Split (CHR ''.'') (TrimSuffix name ''.'') = pre @ [i, ''vm'', app, ''internal''])"
proof
  assume "machine_name name i app"
  then obtain pre where app: "app \<noteq> []" and l: "\<forall>l \<in> set (pre @ [i, app]). CHR ''.'' \<notin> set l"
    and name: "name = Join ''.'' (pre @ [i, ''vm'', app, ''internal''])
      \<or> name = Join ''.'' (pre @ [i, ''vm'', app, ''internal'']) @ ''.''"
    by (auto simp: machine_name_def)
  let ?n = "Join ''.'' (pre @ [i, ''vm'', app, ''internal''])"
  have "?n = Join ''.'' (pre @ [i, ''vm'', app]) @ ''.'' @ ''internal''"
    using Join_snoc [of "pre @ [i, ''vm'', app]" "''.''" "''internal''"] by simp
  then have "\<not> HasSuffix ?n ''.''" by (simp add: HasSuffix_def)
  with name have "TrimSuffix name ''.'' = ?n" by (auto simp: TrimSuffix_def)
  moreover have "Split (CHR ''.'') ?n = pre @ [i, ''vm'', app, ''internal'']"
    by (rule Split_Join) (use l in auto)
  ultimately show "app \<noteq> [] \<and>
     (\<exists>pre. Split (CHR ''.'') (TrimSuffix name ''.'') = pre @ [i, ''vm'', app, ''internal''])"
    using app by auto
next
  assume "app \<noteq> [] \<and>
     (\<exists>pre. Split (CHR ''.'') (TrimSuffix name ''.'') = pre @ [i, ''vm'', app, ''internal''])"
  then obtain pre where app: "app \<noteq> []"
    and sp: "Split (CHR ''.'') (TrimSuffix name ''.'') = pre @ [i, ''vm'', app, ''internal'']" by blast
  have l: "\<forall>l \<in> set (pre @ [i, app]). CHR ''.'' \<notin> set l"
    using Split_labels [of _ "CHR ''.''" "TrimSuffix name ''.''"] sp by auto
  have "TrimSuffix name ''.'' = Join ''.'' (pre @ [i, ''vm'', app, ''internal''])"
    using Join_Split [of "CHR ''.''" "TrimSuffix name ''.''"] sp by simp
  moreover have "name = TrimSuffix name ''.'' \<or> name = TrimSuffix name ''.'' @ ''.''"
    by (auto simp: TrimSuffix_def HasSuffix_def) (metis append_take_drop_id)
  ultimately show "machine_name name i app" using app l by (auto simp: machine_name_def)
qed

lemma list_of_last_four:
  assumes "4 \<le> length xs"
  shows "xs = take (length xs - 4) xs @ [xs ! (length xs - 4), xs ! (length xs - 3),
    xs ! (length xs - 2), xs ! (length xs - 1)]"
proof -
  have "drop (length xs - 4) xs = map (\<lambda>k. xs ! (length xs - 4 + k)) [0..<4]"
    using assms by (intro nth_equalityI) auto
  also have "[0..<4] = [0, 1, 2, 3 :: nat]" by (simp add: upt_rec)
  finally show ?thesis
    using assms append_take_drop_id [of "length xs - 4" xs] by simp
qed

text \<open>C27: a Fly client is named after its machine: when the first name of the reverse lookup of
  its address is a machine name, the identity is the app, preceded by the machine's region
  when that is known; in every other case (a failed lookup, no name, a name with fewer than
  four labels, other labels, an empty app) it is \<open>fly-unknown\<close>.\<close>

theorem resolveFlyIdent_names:
  "(\<forall>name names i app. lookup_addr w ip = Some (name # names) \<and> machine_name name i app \<longrightarrow>
      fst (resolveFlyIdent w ip s) =
        (let region = fst (lookupFlyRegion w app i s) in
         if region = [] then app else region @ ''.'' @ app))
   \<and> ((\<nexists>name names i app. lookup_addr w ip = Some (name # names) \<and> machine_name name i app) \<longrightarrow>
      fst (resolveFlyIdent w ip s) = ''fly-unknown'')"
proof (intro conjI allI impI)
  fix name names i app
  assume a: "lookup_addr w ip = Some (name # names) \<and> machine_name name i app"
  then obtain pre where app: "app \<noteq> []"
    and parts: "Split (CHR ''.'') (TrimSuffix name ''.'') = pre @ [i, ''vm'', app, ''internal'']"
    unfolding machine_name_labels by blast
  let ?parts = "pre @ [i, ''vm'', app, ''internal'']"
  have idx: "?parts ! (length ?parts - 1) = ''internal''" "?parts ! (length ?parts - 2) = app"
    "?parts ! (length ?parts - 3) = ''vm''" "?parts ! (length ?parts - 4) = i"
    by (simp_all add: nth_append)
  show "fst (resolveFlyIdent w ip s) = (let region = fst (lookupFlyRegion w app i s) in
      if region = [] then app else region @ ''.'' @ app)"
    unfolding resolveFlyIdent_def conjunct1 [OF a] option.case list.case parts Let_def idx
    using app by (simp add: split_beta)
next
  assume none: "\<nexists>name names i app. lookup_addr w ip = Some (name # names) \<and> machine_name name i app"
  show "fst (resolveFlyIdent w ip s) = ''fly-unknown''"
  proof (cases "\<exists>name names. lookup_addr w ip = Some (name # names)")
    case False
    then show ?thesis by (auto simp: resolveFlyIdent_def split: option.splits list.splits)
  next
    case True
    then obtain name names where n: "lookup_addr w ip = Some (name # names)" by blast
    let ?parts = "Split (CHR ''.'') (TrimSuffix name ''.'')"
    have "length ?parts < 4 \<or> ?parts ! (length ?parts - 1) \<noteq> ''internal''
      \<or> ?parts ! (length ?parts - 3) \<noteq> ''vm'' \<or> ?parts ! (length ?parts - 2) = []"
    proof (rule ccontr)
      assume c: "\<not> ?thesis"
      with list_of_last_four [of ?parts] have "machine_name name (?parts ! (length ?parts - 4))
          (?parts ! (length ?parts - 2))"
        unfolding machine_name_labels by (metis not_less)
      with none n show False by blast
    qed
    then show ?thesis
      unfolding resolveFlyIdent_def n option.case list.case Let_def by auto
  qed
qed

theorem resolveFlyIdent_names_witness:
  "fst (resolveFlyIdent demo_world demo_ip empty_caches) = ''fra.billing''
   \<and> fst (resolveFlyIdent (demo_world\<lparr>lookup_addr := (\<lambda>a. Some [''vm.billing.internal.''])\<rparr>)
        demo_ip empty_caches) = ''fly-unknown''"
proof
  have "lookup_addr demo_world demo_ip = Some [''d8d9.vm.billing.internal.'']" by code_simp
  moreover have "machine_name ''d8d9.vm.billing.internal.'' ''d8d9'' ''billing''"
    by (auto simp: machine_name_def intro!: exI [of _ "[]"])
  ultimately have "fst (resolveFlyIdent demo_world demo_ip empty_caches)
    = (let region = fst (lookupFlyRegion demo_world ''billing'' ''d8d9'' empty_caches) in
        if region = [] then ''billing'' else region @ ''.'' @ ''billing'')"
    using resolveFlyIdent_names [of demo_world demo_ip empty_caches] by blast
  moreover have "fst (lookupFlyRegion demo_world ''billing'' ''d8d9'' empty_caches) = ''fra''"
    by code_simp
  ultimately show "fst (resolveFlyIdent demo_world demo_ip empty_caches) = ''fra.billing''" by simp
next
  let ?w = "demo_world\<lparr>lookup_addr := (\<lambda>a. Some [''vm.billing.internal.''])\<rparr>"
  have "Split (CHR ''.'') (TrimSuffix ''vm.billing.internal.'' ''.'') = [''vm'', ''billing'', ''internal'']"
    by code_simp
  then have "\<not> machine_name ''vm.billing.internal.'' i app" for i app
    unfolding machine_name_labels by (auto simp: Cons_eq_append_conv)
  then show "fst (resolveFlyIdent ?w demo_ip empty_caches) = ''fly-unknown''"
    using resolveFlyIdent_names [of ?w demo_ip empty_caches] by auto
qed

subsection \<open>The identity of a connection\<close>

definition idents_named :: "ident_caches \<Rightarrow> bool" where
  "idents_named s = (\<forall>ip e. flyIdentCache s ip = Some e \<longrightarrow> ie_ident e \<noteq> [])"

lemma resolveFlyIdent_named: "fst (resolveFlyIdent w ip s) \<noteq> []"
  by (auto simp: resolveFlyIdent_def Let_def split_beta split: option.splits list.splits)

lemma lookupFlyIdent_named:
  assumes "idents_named s"
  shows "fst (lookupFlyIdent w ip s) \<noteq> [] \<and> idents_named (snd (lookupFlyIdent w ip s))"
proof (cases "\<exists>v e. ident_entry s ip = Some (v, e) \<and> t_ident_check w < e")
  case True
  then obtain v e where h: "ident_entry s ip = Some (v, e)" "t_ident_check w < e" by blast
  from ident_cache_hit [OF h] h assms show ?thesis
    by (auto simp: ident_entry_def idents_named_def)
next
  case False
  obtain r s' where run: "lookupFlyIdent w ip s = (r, s')" by (cases "lookupFlyIdent w ip s")
  from ident_cache_miss [OF False run] have r: "r \<noteq> []"
    and upd: "ident_entry s' = (ident_entry s)(ip \<mapsto> (r, t_ident_store w + flyCacheTTL))"
    using resolveFlyIdent_named [of w ip s] by auto
  have "ie_ident e \<noteq> []" if "flyIdentCache s' ip' = Some e" for ip' e
  proof -
    from that have "ident_entry s' ip' = Some (ie_ident e, ie_expiresAt e)"
      by (simp add: ident_entry_def)
    with upd r assms show ?thesis
      by (auto simp: ident_entry_def idents_named_def split: if_splits)
  qed
  with run r show ?thesis by (simp add: idents_named_def)
qed

lemma identifyClient_named:
  assumes "idents_named s"
  shows "idents_named (snd (snd (identifyClient fl w remote s)))"
    and "fst (snd (identifyClient fl w remote s)) = Some i \<Longrightarrow> id_appName i \<noteq> []"
  using lookupFlyIdent_named [OF assms, of w] assms
  by (auto simp: identifyClient_def Let_def split_beta split: peerKind.splits if_splits)

text \<open>The caches after a history of connections.\<close>

definition caches_after :: "flags \<Rightarrow> (ident_world \<times> string) list \<Rightarrow> ident_caches" where
  "caches_after fl cs = fold (\<lambda>(w, remote) s. snd (snd (identifyClient fl w remote s))) cs empty_caches"

lemma caches_after_named: "idents_named (caches_after fl cs)"
proof (induction cs rule: rev_induct)
  case Nil
  then show ?case by (simp add: caches_after_def idents_named_def empty_caches_def)
next
  case (snoc c cs)
  then show ?case
    by (cases c) (simp add: caches_after_def identifyClient_named(1))
qed

text \<open>C24: no connection is anonymous: after any history, a connection is turned away exactly
  when its source is not trusted, which is counted once as \<open>disallowed-source\<close>; every other one
  gets an identity whose application name is not empty, whatever the lookups did, and which is
  appended (rather than filled in) exactly for tailnet clients.\<close>

theorem identifyClient_attributes:
  "case identifyClient fl w remote (caches_after fl cs) of
     (tr, None, s') \<Rightarrow> classifyPeer fl remote = peerReject \<and> tr = [ErrorAdd ''disallowed-source'']
        \<and> s' = caches_after fl cs
   | (tr, Some i, s') \<Rightarrow> id_appName i \<noteq> [] \<and> id_user i = id_appName i \<and> id_machine i \<noteq> []
        \<and> (if id_fromTS i then classifyPeer fl remote = peerTailscale
           else classifyPeer fl remote = peerFly \<and> tr = [])"
proof -
  obtain tr oi s' where run: "identifyClient fl w remote (caches_after fl cs) = (tr, oi, s')"
    by (metis surj_pair)
  show ?thesis
  proof (cases oi)
    case None
    with run show ?thesis
      by (auto simp: identifyClient_def Let_def split_beta split: peerKind.splits)
  next
    case (Some i)
    have "id_appName i \<noteq> []"
      using identifyClient_named(2) [OF caches_after_named, of fl w remote fl cs i] run Some
      by simp
    with run Some show ?thesis
      by (auto simp: identifyClient_def Let_def split_beta split: peerKind.splits if_splits)
  qed
qed

subsection \<open>The inventory record\<close>

text \<open>A word of printable ASCII without spaces and commas, as machine ids and regions are.\<close>

definition plain_word :: "string \<Rightarrow> bool" where
  "plain_word w = (w \<noteq> [] \<and> list_all (\<lambda>c. 32 < (of_char c :: nat) \<and> of_char c < (127 :: nat)
     \<and> c \<noteq> CHR '','') w)"

definition machine_text :: "string \<times> string \<Rightarrow> string" where
  "machine_text m = fst m @ '' '' @ snd m"

definition vms_text :: "(string \<times> string) list \<Rightarrow> string" where
  "vms_text ms = Join '','' (map machine_text ms)"

lemma TrimSpace_entry:
  assumes "plain_word i" "plain_word r"
  shows "TrimSpace (i @ '' '' @ r) = i @ '' '' @ r"
proof -
  from assms(1) obtain c t where i: "i = c # t" "32 < (of_char c :: nat)" "of_char c < (127 :: nat)"
    by (cases i) (auto simp: plain_word_def)
  from assms(2) obtain u d where r: "r = u @ [d]" "32 < (of_char d :: nat)" "of_char d < (127 :: nat)"
    by (cases r rule: rev_cases) (auto simp: plain_word_def)
  have "space_front (i @ '' '' @ r) = 0"
    using space_front_printable [OF i(2,3)] i(1) by simp
  moreover have "space_end (i @ '' '' @ r) = 0"
    using space_end_printable [OF r(2,3), of "i @ '' '' @ u"] r(1) by simp
  ultimately show ?thesis
    by (simp add: TrimSpace_def TrimLeftSpace.simps TrimRightSpace.simps)
qed

lemma Fields_from_word:
  "list_all (\<lambda>c. 32 < (of_char c :: nat) \<and> of_char c < (127 :: nat)) w \<Longrightarrow>
     Fields_from cur (w @ rest) = Fields_from (cur @ w) rest"
proof (induction w arbitrary: cur)
  case (Cons c w)
  then show ?case
    by (simp add: Fields_from.simps [of cur "c # w @ rest"] space_front_printable)
qed simp

lemma Fields_entry:
  assumes "plain_word i" "plain_word r"
  shows "Fields (i @ '' '' @ r) = [i, r]"
proof -
  have p: "list_all (\<lambda>c. 32 < (of_char c :: nat) \<and> of_char c < (127 :: nat)) i"
    "list_all (\<lambda>c. 32 < (of_char c :: nat) \<and> of_char c < (127 :: nat)) r" "i \<noteq> []" "r \<noteq> []"
    using assms by (auto simp: plain_word_def list_all_iff)
  have "space_front (CHR '' '' # s) = 1" for s
    by (simp add: space_front_def space_runes_def)
  then have "Fields_from i ('' '' @ r) = [i] @ Fields_from [] r"
    using p(3) by (simp add: Fields_from.simps [of i])
  moreover have "Fields_from [] r = [r]"
    using Fields_from_word [OF p(2), of "[]" "[]"] p(4) by (simp add: Fields_from.simps [of r])
  ultimately show ?thesis
    using Fields_from_word [OF p(1), of "[]" "'' '' @ r"] by (simp add: Fields_def)
qed

lemma Split_vms_text:
  assumes "ms \<noteq> []" "\<forall>(i, r) \<in> set ms. plain_word i \<and> plain_word r"
  shows "Split (CHR '','') (vms_text ms) = map machine_text ms"
proof -
  have "CHR '','' \<notin> set w" if "w \<in> set (map machine_text ms)" for w
  proof -
    from that obtain i r where "(i, r) \<in> set ms" "w = i @ '' '' @ r"
      by (auto simp: machine_text_def)
    with assms(2) have "plain_word i" "plain_word r" by blast+
    with \<open>w = i @ '' '' @ r\<close> show ?thesis by (auto simp: plain_word_def list_all_iff)
  qed
  then show ?thesis
    unfolding vms_text_def using assms(1) by (intro Split_Join) simp_all
qed

lemma fold_vms_entries:
  "\<forall>(i, r) \<in> set ms. plain_word i \<and> plain_word r \<Longrightarrow>
     fold vms_entry (map machine_text ms) m = m ++ map_of (rev ms)"
proof (induction ms arbitrary: m)
  case (Cons x ms)
  obtain i r where x: "x = (i, r)" by (cases x)
  have "vms_entry (machine_text x) m = m(i \<mapsto> r)"
    using Cons.prems x TrimSpace_entry [of i r] Fields_entry [of i r]
    by (simp add: vms_entry_def machine_text_def)
  moreover have "fold vms_entry (map machine_text ms) (m(i \<mapsto> r)) = m(i \<mapsto> r) ++ map_of (rev ms)"
    by (rule Cons.IH) (use Cons.prems in auto)
  moreover have "m(i \<mapsto> r) ++ map_of (rev ms) = m ++ map_of (rev (x # ms))"
    by (simp add: x fun_eq_iff map_add_def split: option.splits)
  ultimately show ?case by simp
qed simp

text \<open>C28: the inventory parser reads the records of \<open>vms.<app>.internal\<close> as written: for any
  division of the machine list into TXT strings it yields each machine's region, the last one
  when a machine is listed twice, and knows no other machine.\<close>

theorem parseVmsTXT_inventory:
  assumes "\<forall>ms \<in> set records. ms \<noteq> [] \<and> (\<forall>(i, r) \<in> set ms. plain_word i \<and> plain_word r)"
  shows "parseVmsTXT (map vms_text records) = map_of (rev (concat records))"
proof -
  have "fold (\<lambda>record. fold vms_entry (Split (CHR '','') record)) (map vms_text records) m
      = m ++ map_of (rev (concat records))" for m
    using assms
  proof (induction records arbitrary: m)
    case (Cons ms records)
    then show ?case
      by (simp add: Split_vms_text fold_vms_entries flip: map_add_assoc)
  qed simp
  from this [of Map.empty] show ?thesis by (simp add: parseVmsTXT_def)
qed

theorem parseVmsTXT_inventory_witness:
  "parseVmsTXT (map vms_text [[(''a1'', ''sin''), (''d8'', ''iad'')], [(''d8'', ''fra'')]]) ''d8''
     = Some ''fra''"
proof -
  have "\<forall>ms \<in> set [[(''a1'', ''sin''), (''d8'', ''iad'')], [(''d8'', ''fra'')]].
      ms \<noteq> [] \<and> (\<forall>(i, r) \<in> set ms. plain_word i \<and> plain_word r)"
    by code_simp
  from parseVmsTXT_inventory [OF this] show ?thesis by simp
qed

end
