(* ===== verification/IdentRaces.thy ===== *)
theory IdentRaces
  imports Ident
begin

text \<open>
  Concurrent identity lookups. Connections are served by goroutines that share the two
  \<^verbatim>\<open>sync.Map\<close> caches of \<^verbatim>\<open>src/fly.go\<close>, so between the load and the store of one
  lookup any number of others may run. Here \<open>lookupFlyIdent\<close> with what it calls is cut into the
  steps that touch a cache or wait for the outside; the steps of all lookups interleave
  arbitrarily. The clock readings of different lookups are unrelated.
\<close>

text \<open>Where a lookup is: about to load the identity, to ask for the reverse name, to load the
  inventory table, to ask for the TXT records, to store a table, to store the identity, or done.\<close>

datatype lookup_pc =
    LoadIdent
  | ReverseLookup
  | LoadRegion string string
  | FetchRegion string string
  | StoreRegion string string "string \<Rightarrow> string option"
  | StoreIdent string
  | Answered string

text \<open>The app and the machine id in the reverse name of an address.\<close>

definition fly_machine :: "ident_world \<Rightarrow> netip_addr \<Rightarrow> (string \<times> string) option" where
  "fly_machine w ip =
     (case lookup_addr w ip of
        None \<Rightarrow> None
      | Some [] \<Rightarrow> None
      | Some (name # names) \<Rightarrow>
          let parts = Split (CHR ''.'') (TrimSuffix name ''.'');
              n = length parts in
          if n < 4 \<or> parts ! (n - 1) \<noteq> ''internal'' \<or> parts ! (n - 3) \<noteq> ''vm''
          then None
          else if parts ! (n - 2) = [] then None
          else Some (parts ! (n - 2), parts ! (n - 4)))"

definition region_name :: "string \<Rightarrow> string \<Rightarrow> string" where
  "region_name region app = (if region = [] then app else region @ ''.'' @ app)"

definition vms_host :: "string \<Rightarrow> string" where
  "vms_host app = ''vms.'' @ app @ ''.internal''"

definition cached_region :: "ident_world \<Rightarrow> string \<Rightarrow> string \<Rightarrow> ident_caches \<Rightarrow> string" where
  "cached_region w app i s =
     (case flyVmsCache s app of
        None \<Rightarrow> []
      | Some t \<Rightarrow> if t_vms_check w < vt_expiresAt t then get_str (vt_byID t) i else [])"

fun lookup_next ::
  "ident_world \<Rightarrow> netip_addr \<Rightarrow> lookup_pc \<Rightarrow> ident_caches \<Rightarrow> lookup_pc \<times> ident_caches" where
  "lookup_next w ip LoadIdent s =
     (case flyIdentCache s ip of
        None \<Rightarrow> (ReverseLookup, s)
      | Some e \<Rightarrow> if t_ident_check w < ie_expiresAt e then (Answered (ie_ident e), s)
                  else (ReverseLookup, s))"
| "lookup_next w ip ReverseLookup s =
     (case fly_machine w ip of
        None \<Rightarrow> (StoreIdent ''fly-unknown'', s)
      | Some (app, i) \<Rightarrow> (LoadRegion app i, s))"
| "lookup_next w ip (LoadRegion app i) s =
     (let r = cached_region w app i s in
      if r \<noteq> [] then (StoreIdent (region_name r app), s) else (FetchRegion app i, s))"
| "lookup_next w ip (FetchRegion app i) s =
     (case lookup_txt w (vms_host app) of
        None \<Rightarrow> (StoreIdent app, s)
      | Some txts \<Rightarrow> (StoreRegion app i (parseVmsTXT txts), s))"
| "lookup_next w ip (StoreRegion app i byID) s =
     (StoreIdent (region_name (get_str byID i) app),
      s\<lparr>flyVmsCache := (flyVmsCache s)(app \<mapsto>
          \<lparr>vt_byID = byID, vt_expiresAt = t_vms_store w + flyCacheTTL\<rparr>)\<rparr>)"
| "lookup_next w ip (StoreIdent v) s =
     (Answered v,
      s\<lparr>flyIdentCache := (flyIdentCache s)(ip \<mapsto>
          \<lparr>ie_ident = v, ie_expiresAt = t_ident_store w + flyCacheTTL\<rparr>)\<rparr>)"
| "lookup_next w ip (Answered v) s = (Answered v, s)"

subsection \<open>One lookup alone\<close>

fun pc_rank :: "lookup_pc \<Rightarrow> nat" where
  "pc_rank LoadIdent = 6"
| "pc_rank ReverseLookup = 5"
| "pc_rank (LoadRegion app i) = 4"
| "pc_rank (FetchRegion app i) = 3"
| "pc_rank (StoreRegion app i t) = 2"
| "pc_rank (StoreIdent v) = 1"
| "pc_rank (Answered v) = 0"

lemma lookup_next_rank:
  "pc_rank pc \<noteq> 0 \<Longrightarrow> pc_rank (fst (lookup_next w ip pc s)) < pc_rank pc"
  by (cases pc) (auto simp: Let_def split: option.splits)

text \<open>Running a lookup without interference, for at most \<open>n\<close> steps.\<close>

fun run_alone ::
  "nat \<Rightarrow> ident_world \<Rightarrow> netip_addr \<Rightarrow> lookup_pc \<Rightarrow> ident_caches \<Rightarrow> lookup_pc \<times> ident_caches" where
  "run_alone 0 w ip pc s = (pc, s)"
| "run_alone (Suc n) w ip pc s = (let (pc', s') = lookup_next w ip pc s in run_alone n w ip pc' s')"

lemma run_alone_Answered [simp]: "run_alone n w ip (Answered v) s = (Answered v, s)"
  by (induction n) auto

lemma run_alone_StoreIdent [simp]:
  "run_alone (Suc n) w ip (StoreIdent v) s =
     (Answered v, s\<lparr>flyIdentCache := (flyIdentCache s)(ip \<mapsto>
        \<lparr>ie_ident = v, ie_expiresAt = t_ident_store w + flyCacheTTL\<rparr>)\<rparr>)"
  by simp

lemma lookupFlyRegion_steps:
  "run_alone (Suc (Suc (Suc (Suc n)))) w ip (LoadRegion app i) s =
     (let (r, s') = lookupFlyRegion w app i s in
      run_alone (Suc 0) w ip (StoreIdent (region_name r app)) s')"
  by (auto simp: lookupFlyRegion_def vms_host_def cached_region_def Let_def region_name_def split_beta
      split: option.splits)

lemma resolveFlyIdent_machine:
  "resolveFlyIdent w ip s =
     (case fly_machine w ip of
        None \<Rightarrow> (''fly-unknown'', s)
      | Some (app, i) \<Rightarrow>
          (let (r, s') = lookupFlyRegion w app i s in (region_name r app, s')))"
  by (auto simp: resolveFlyIdent_def fly_machine_def region_name_def Let_def split_beta
      split: option.splits list.splits)

lemma run_alone_lookup:
  "run_alone 6 w ip LoadIdent s =
     (let (v, s') = lookupFlyIdent w ip s in (Answered v, s'))"
proof -
  have six: "(6::nat) = Suc (Suc (Suc (Suc (Suc (Suc 0)))))" by simp
  have "run_alone (Suc (Suc (Suc (Suc (Suc 0))))) w ip ReverseLookup s =
      (let (v, s') = resolveFlyIdent w ip s in
       (Answered v, s'\<lparr>flyIdentCache := (flyIdentCache s')(ip \<mapsto>
          \<lparr>ie_ident = v, ie_expiresAt = t_ident_store w + flyCacheTTL\<rparr>)\<rparr>))"
    using lookupFlyRegion_steps [of 0 w ip _ _ s]
    by (subst run_alone.simps)
      (auto simp: resolveFlyIdent_machine split_beta simp del: run_alone.simps(2) lookup_next.simps(3-5) split: option.splits)
  then show ?thesis
    unfolding six
    by (subst run_alone.simps)
      (auto simp: lookupFlyIdent_def split_beta simp del: run_alone.simps(2) split: option.splits)
qed

text \<open>The steps are those of the program: run without interference, for six steps, a lookup answers
  and leaves the caches exactly as \<open>lookupFlyIdent\<close> does.\<close>

theorem lookup_steps_refine:
  "run_alone 6 w ip LoadIdent s =
     (let (v, s') = lookupFlyIdent w ip s in (Answered v, s'))"
  by (rule run_alone_lookup)

subsection \<open>Many lookups at once\<close>

type_synonym lookup_job = "ident_world \<times> netip_addr \<times> lookup_pc"

inductive race_step :: "ident_caches \<times> lookup_job list \<Rightarrow> ident_caches \<times> lookup_job list \<Rightarrow> bool" where
  begin_lookup: "race_step (s, js) (s, js @ [(w, ip, LoadIdent)])"
| advance: "lookup_next w ip pc s = (pc', s') \<Longrightarrow>
    race_step (s, xs @ (w, ip, pc) # ys) (s', xs @ (w, ip, pc') # ys)"

inductive race_reach :: "ident_caches \<times> lookup_job list \<Rightarrow> bool" where
  race_init: "race_reach (empty_caches, [])"
| race_more: "race_reach st \<Longrightarrow> race_step st st' \<Longrightarrow> race_reach st'"

text \<open>The lookups begun so far.\<close>

definition begun :: "lookup_job list \<Rightarrow> (ident_world \<times> netip_addr) set" where
  "begun js = (\<lambda>(w, ip, pc). (w, ip)) ` set js"

lemma begun_simps [simp]:
  "begun [] = {}" "begun (xs @ ys) = begun xs \<union> begun ys"
  "begun ((w, ip, pc) # js) = insert (w, ip) (begun js)"
  by (simp_all add: begun_def image_Un)

text \<open>
  Where a region and an identity may come from. A region that lookup \<open>w\<close> gives machine \<open>i\<close> is
  read from an inventory fetched by \<open>w\<close> itself, or by a lookup \<open>w1\<close> that stored it less than
  \<open>flyCacheTTL\<close> before \<open>w\<close> looked; it is empty when the fetch failed.
\<close>

definition region_from ::
  "(ident_world \<times> netip_addr) set \<Rightarrow> ident_world \<Rightarrow> string \<Rightarrow> string \<Rightarrow> string \<Rightarrow> bool" where
  "region_from B w app i region =
     (region = [] \<and> lookup_txt w (vms_host app) = None
      \<or> (\<exists>w1 ip1 txts. (w1, ip1) \<in> B \<and> lookup_txt w1 (vms_host app) = Some txts
           \<and> region = get_str (parseVmsTXT txts) i
           \<and> (w1 = w \<or> t_vms_check w < t_vms_store w1 + flyCacheTTL)))"

text \<open>The identity \<open>v\<close> is what lookup \<open>w\<close> of \<open>ip\<close> resolves.\<close>

definition ident_from ::
  "(ident_world \<times> netip_addr) set \<Rightarrow> ident_world \<Rightarrow> netip_addr \<Rightarrow> string \<Rightarrow> bool" where
  "ident_from B w ip v =
     (case fly_machine w ip of
        None \<Rightarrow> v = ''fly-unknown''
      | Some (app, i) \<Rightarrow> (\<exists>region. region_from B w app i region \<and> v = region_name region app))"

definition tables_ok :: "(ident_world \<times> netip_addr) set \<Rightarrow> ident_caches \<Rightarrow> bool" where
  "tables_ok B s =
     (\<forall>app t. flyVmsCache s app = Some t \<longrightarrow>
        (\<exists>w1 ip1 txts. (w1, ip1) \<in> B \<and> lookup_txt w1 (vms_host app) = Some txts
           \<and> vt_byID t = parseVmsTXT txts \<and> vt_expiresAt t = t_vms_store w1 + flyCacheTTL))"

definition idents_ok :: "(ident_world \<times> netip_addr) set \<Rightarrow> ident_caches \<Rightarrow> bool" where
  "idents_ok B s =
     (\<forall>ip e. flyIdentCache s ip = Some e \<longrightarrow>
        (\<exists>w0. (w0, ip) \<in> B \<and> ident_from B w0 ip (ie_ident e)
           \<and> ie_expiresAt e = t_ident_store w0 + flyCacheTTL))"

fun pc_ok ::
  "(ident_world \<times> netip_addr) set \<Rightarrow> ident_world \<Rightarrow> netip_addr \<Rightarrow> lookup_pc \<Rightarrow> bool" where
  "pc_ok B w ip LoadIdent = True"
| "pc_ok B w ip ReverseLookup = True"
| "pc_ok B w ip (LoadRegion app i) = (fly_machine w ip = Some (app, i))"
| "pc_ok B w ip (FetchRegion app i) = (fly_machine w ip = Some (app, i))"
| "pc_ok B w ip (StoreRegion app i t) = (fly_machine w ip = Some (app, i)
     \<and> (\<exists>txts. lookup_txt w (vms_host app) = Some txts \<and> t = parseVmsTXT txts))"
| "pc_ok B w ip (StoreIdent v) = ident_from B w ip v"
| "pc_ok B w ip (Answered v) = (\<exists>w0. (w0, ip) \<in> B \<and> ident_from B w0 ip v
     \<and> (w0 = w \<or> t_ident_check w < t_ident_store w0 + flyCacheTTL))"

definition race_inv :: "ident_caches \<times> lookup_job list \<Rightarrow> bool" where
  "race_inv st =
     (tables_ok (begun (snd st)) (fst st) \<and> idents_ok (begun (snd st)) (fst st)
      \<and> list_all (\<lambda>(w, ip, pc). pc_ok (begun (snd st)) w ip pc) (snd st))"

lemma region_from_mono: "region_from B w app i r \<Longrightarrow> B \<subseteq> B' \<Longrightarrow> region_from B' w app i r"
  by (auto simp: region_from_def)

lemma ident_from_mono: "ident_from B w ip v \<Longrightarrow> B \<subseteq> B' \<Longrightarrow> ident_from B' w ip v"
  by (auto simp: ident_from_def split: option.splits intro: region_from_mono)

lemma pc_ok_mono: "pc_ok B w ip pc \<Longrightarrow> B \<subseteq> B' \<Longrightarrow> pc_ok B' w ip pc"
  by (cases pc) (auto intro: ident_from_mono)

lemma caches_ok_mono:
  "tables_ok B s \<Longrightarrow> B \<subseteq> B' \<Longrightarrow> tables_ok B' s"
  "idents_ok B s \<Longrightarrow> B \<subseteq> B' \<Longrightarrow> idents_ok B' s"
  unfolding tables_ok_def idents_ok_def by (meson subsetD ident_from_mono)+

lemma cached_region_from:
  assumes "tables_ok B s" "cached_region w app i s \<noteq> []"
  shows "region_from B w app i (cached_region w app i s)"
proof -
  from assms(2) obtain t where t: "flyVmsCache s app = Some t" "t_vms_check w < vt_expiresAt t"
    by (auto simp: cached_region_def split: option.splits if_splits)
  then have "cached_region w app i s = get_str (vt_byID t) i"
    by (simp add: cached_region_def)
  moreover from assms(1) t(1) obtain w1 ip1 txts where "(w1, ip1) \<in> B"
    "lookup_txt w1 (vms_host app) = Some txts" "vt_byID t = parseVmsTXT txts"
    "vt_expiresAt t = t_vms_store w1 + flyCacheTTL"
    unfolding tables_ok_def by blast
  ultimately show ?thesis
    using t(2) unfolding region_from_def by auto
qed

lemma ident_from_region:
  "fly_machine w ip = Some (app, i) \<Longrightarrow> region_from B w app i r \<Longrightarrow>
     ident_from B w ip (region_name r app)"
  by (auto simp: ident_from_def)

text \<open>One step of one lookup keeps the invariant of the caches and of that lookup.\<close>

lemma lookup_next_ok:
  assumes "(w, ip) \<in> B" "tables_ok B s" "idents_ok B s" "pc_ok B w ip pc"
    and "lookup_next w ip pc s = (pc', s')"
  shows "tables_ok B s' \<and> idents_ok B s' \<and> pc_ok B w ip pc'"
proof (cases pc)
  case LoadIdent
  with assms show ?thesis
    by (auto simp: idents_ok_def split: option.splits if_splits) fastforce+
next
  case ReverseLookup
  with assms show ?thesis
    by (auto simp: ident_from_def split: option.splits)
next
  case (LoadRegion app i)
  with assms cached_region_from [OF assms(2), of w app i] show ?thesis
    by (auto simp: Let_def intro: ident_from_region split: if_splits)
next
  case (FetchRegion app i)
  have "ident_from B w ip app" if "lookup_txt w (vms_host app) = None"
    using that FetchRegion assms(4) ident_from_region [of w ip app i B "[]"]
    by (simp add: region_from_def region_name_def)
  with FetchRegion assms show ?thesis
    by (auto split: option.splits)
next
  case (StoreRegion app i t)
  with assms(1,4) have "region_from B w app i (get_str t i)"
    by (auto simp: region_from_def)
  with StoreRegion assms show ?thesis
    by (auto simp: tables_ok_def idents_ok_def intro: ident_from_region split: if_splits) blast+
next
  case (StoreIdent v)
  with assms show ?thesis
    by (auto simp: tables_ok_def idents_ok_def split: if_splits) blast+
next
  case (Answered v)
  with assms show ?thesis by auto
qed

lemma race_reach_inv: "race_reach st \<Longrightarrow> race_inv st"
proof (induction rule: race_reach.induct)
  case race_init
  then show ?case
    by (simp add: race_inv_def tables_ok_def idents_ok_def empty_caches_def)
next
  case (race_more st st')
  obtain s js where st: "st = (s, js)" by (cases st)
  from race_more.hyps(2) [unfolded st] show ?case
  proof (cases rule: race_step.cases)
    case (begin_lookup w ip)
    have "begun js \<subseteq> begun (js @ [(w, ip, LoadIdent)])" by auto
    with begin_lookup race_more.IH st show ?thesis
      by (auto simp: race_inv_def list_all_iff intro: caches_ok_mono pc_ok_mono)
  next
    case (advance w ip pc pc' s' xs ys)
    with race_more.IH st lookup_next_ok [of w ip "begun js" s pc pc' s'] show ?thesis
      by (auto simp: race_inv_def list_all_iff)
  qed
qed

lemma region_name_nonempty: "app \<noteq> [] \<Longrightarrow> region_name region app \<noteq> []"
  by (simp add: region_name_def)

lemma fly_machine_app: "fly_machine w ip = Some (app, i) \<Longrightarrow> app \<noteq> []"
  by (auto simp: fly_machine_def Let_def split: option.splits list.splits if_splits)

lemma ident_from_nonempty: "ident_from B w ip v \<Longrightarrow> v \<noteq> []"
  by (auto simp: ident_from_def region_name_def dest: fly_machine_app split: option.splits if_splits)

text \<open>C26: caching stays honest under concurrency: in any interleaving of any number of lookups, an
  answer for an address is never empty and is one that a lookup of that very address
  resolved, the answering one or one that stored it less than \<open>flyCacheTTL\<close> before the
  answering one looked; and the region it carries, if any, is what the inventory of that very
  app gave that very machine in a table fetched by the resolving lookup or by one that stored
  it less than \<open>flyCacheTTL\<close> before the resolving one looked. The two lifetimes add up: a region
  may be almost twice as old as \<open>flyCacheTTL\<close> when it is answered.\<close>

theorem concurrent_idents_fresh:
  assumes "race_reach (s, js)" "(w, ip, Answered v) \<in> set js"
  shows "v \<noteq> [] \<and> (\<exists>w0. (w0, ip) \<in> begun js
    \<and> (w0 = w \<or> t_ident_check w < t_ident_store w0 + flyCacheTTL)
    \<and> (case fly_machine w0 ip of
         None \<Rightarrow> v = ''fly-unknown''
       | Some (app, i) \<Rightarrow> \<exists>region. v = region_name region app
           \<and> (region = [] \<and> lookup_txt w0 (vms_host app) = None
              \<or> (\<exists>w1 ip1 txts. (w1, ip1) \<in> begun js \<and> lookup_txt w1 (vms_host app) = Some txts
                   \<and> region = get_str (parseVmsTXT txts) i
                   \<and> (w1 = w0 \<or> t_vms_check w0 < t_vms_store w1 + flyCacheTTL)))))"
proof -
  from race_reach_inv [OF assms(1)] assms(2) have "pc_ok (begun js) w ip (Answered v)"
    by (auto simp: race_inv_def list_all_iff)
  then obtain w0 where w0: "(w0, ip) \<in> begun js" "ident_from (begun js) w0 ip v"
    "w0 = w \<or> t_ident_check w < t_ident_store w0 + flyCacheTTL" by auto
  with ident_from_nonempty [OF w0(2)] show ?thesis
    by (intro conjI exI [of _ w0])
      (auto simp: ident_from_def region_from_def split: option.splits)
qed

lemma race_run_alone:
  "race_reach (s, xs @ (w, ip, pc) # ys) \<Longrightarrow> run_alone n w ip pc s = (pc', s') \<Longrightarrow>
     race_reach (s', xs @ (w, ip, pc') # ys)"
proof (induction n arbitrary: pc s)
  case (Suc n)
  obtain pc1 s1 where n: "lookup_next w ip pc s = (pc1, s1)" by (cases "lookup_next w ip pc s")
  from race_more [OF Suc.prems(1) advance [OF n]] Suc.IH [of s1 pc1] Suc.prems(2) n
  show ?case by simp
qed simp

text \<open>Two lookups of one address, begun together.\<close>

lemma demo_race:
  "\<exists>s. race_reach (s, [(demo_world, demo_ip, Answered ''fra.billing''),
     (demo_world, demo_ip, Answered ''fra.billing'')])"
proof -
  let ?w = demo_world and ?ip = demo_ip
  obtain v s1 where r1: "lookupFlyIdent ?w ?ip empty_caches = (v, s1)"
    by (cases "lookupFlyIdent ?w ?ip empty_caches")
  have v: "v = ''fra.billing''"
  proof -
    have "fst (lookupFlyIdent ?w ?ip empty_caches) = ''fra.billing''" by code_simp
    with r1 show ?thesis by simp
  qed
  have "race_reach (empty_caches, [(?w, ?ip, LoadIdent)])"
    using race_more [OF race_init begin_lookup] by simp
  from race_more [OF this begin_lookup]
  have two: "race_reach (empty_caches, [] @ (?w, ?ip, LoadIdent) # [(?w, ?ip, LoadIdent)])" by simp
  from race_run_alone [OF two, of 6] r1
  have "race_reach (s1, [(?w, ?ip, Answered v)] @ (?w, ?ip, LoadIdent) # [])"
    by (simp add: run_alone_lookup)
  moreover obtain v2 s2 where r2: "lookupFlyIdent ?w ?ip s1 = (v2, s2)"
    by (cases "lookupFlyIdent ?w ?ip s1")
  moreover have "v2 = ''fra.billing''"
  proof -
    have "fst (lookupFlyIdent ?w ?ip (snd (lookupFlyIdent ?w ?ip empty_caches))) = ''fra.billing''"
      by code_simp
    with r1 r2 show ?thesis by simp
  qed
  ultimately show ?thesis
    using race_run_alone [of s1 "[(?w, ?ip, Answered v)]" ?w ?ip LoadIdent "[]" 6] v
    by (auto simp: run_alone_lookup)
qed

theorem concurrent_idents_fresh_witness:
  "\<exists>region. ''fra.billing'' = region_name region ''billing''
     \<and> (\<exists>txts. lookup_txt demo_world (vms_host ''billing'') = Some txts
          \<and> region = get_str (parseVmsTXT txts) ''d8d9'')"
proof -
  from demo_race obtain s where s: "race_reach (s, [(demo_world, demo_ip, Answered ''fra.billing''),
     (demo_world, demo_ip, Answered ''fra.billing'')])" by blast
  have m: "fly_machine demo_world demo_ip = Some (''billing'', ''d8d9'')" by code_simp
  have t: "lookup_txt demo_world (vms_host ''billing'') \<noteq> None"
    by (simp add: demo_world_def vms_host_def)
  from concurrent_idents_fresh [OF s, of demo_world demo_ip "''fra.billing''"] m t
  show ?thesis by auto
qed

end
