(* ===== verification/PgProxy.thy ===== *)
theory PgProxy
  imports Handler Config Startup Ident Splice_Model "HOL-Library.List_Lexorder"
    "HOL-Library.Char_ord"
begin

text \<open>
  The Postgres proxy (\<^verbatim>\<open>src/pgproxy.go\<close>, with \<^verbatim>\<open>forwardStartup\<close> of
  \<^verbatim>\<open>src/fly.go\<close>) and its managed mode (\<^verbatim>\<open>src/credentials-manager.go\<close>):
  creation of a proxy, the numbering of its sessions, and the whole handler of one client
  connection. \<open>pg_world\<close> is one connection and what the outside answers; a handler returns its
  events and, when it reaches the splice, the bytes of the client that are still unread there.
  TLS itself, the certificate store and the pgx library are outside: their results are fields
  of the world or parameters.
\<close>

subsection \<open>Creating a proxy\<close>

record certificate =
  SerialNumber :: int
  Organization :: "string list"
  DNSNames :: "string list"
  NotBefore :: int
  NotAfter :: int
  digitalSignature :: bool
  serverAuth :: bool
  BasicConstraintsValid :: bool

text \<open>The x509 and ecdsa primitives, and the file system.\<close>

record crypto =
  generateKey :: "bytes option"
  createCertificate :: "certificate \<Rightarrow> bytes \<Rightarrow> bytes option"
  parseCertificate :: "bytes \<Rightarrow> certificate option"
  t_not_before :: int
  t_not_after :: int
  readFile :: "string \<Rightarrow> bytes option"
  appendCertsFromPEM :: "bytes \<Rightarrow> bool"

datatype newProxyError =
  CannotReadCA | InvalidCA string | BadUpstreamAddr addr_error | CannotMakeCert

text \<open>A \<^verbatim>\<open>tls.Certificate\<close>: the DER bytes, the private key and the parsed leaf.\<close>

type_synonym tls_certificate = "bytes \<times> bytes \<times> certificate"

definition mkSelfSigned :: "crypto \<Rightarrow> string \<Rightarrow> tls_certificate option" where
  "mkSelfSigned cr hostname =
     (case generateKey cr of
        None \<Rightarrow> None
      | Some priv \<Rightarrow>
          let template = \<lparr>SerialNumber = 1, Organization = [''private-gateway''],
                DNSNames = [hostname], NotBefore = t_not_before cr,
                NotAfter = t_not_after cr + 10 * 365 * 24 * 3600 * 1000000000,
                digitalSignature = True, serverAuth = True, BasicConstraintsValid = True\<rparr> in
          (case createCertificate cr template priv of
             None \<Rightarrow> None
           | Some der \<Rightarrow>
               (case parseCertificate cr der of
                  None \<Rightarrow> None
                | Some leaf \<Rightarrow> Some (der, priv, leaf))))"

record proxy =
  upstreamAddr :: string
  upstreamHost :: string
  upstreamCertPool :: bytes
  downstreamCert :: tls_certificate
  pcfg :: upstreamConfig

definition newProxy :: "crypto \<Rightarrow> string \<Rightarrow> string \<Rightarrow> newProxyError + proxy" where
  "newProxy cr addr caPath =
     (case readFile cr caPath of
        None \<Rightarrow> Inl CannotReadCA
      | Some bs \<Rightarrow>
          if \<not> appendCertsFromPEM cr bs then Inl (InvalidCA caPath)
          else case SplitHostPort addr of
            Inl e \<Rightarrow> Inl (BadUpstreamAddr e)
          | Inr (h, port) \<Rightarrow>
              (case mkSelfSigned cr h of
                 None \<Rightarrow> Inl CannotMakeCert
               | Some cert \<Rightarrow>
                   Inr \<lparr>upstreamAddr = addr, upstreamHost = h, upstreamCertPool = bs,
                        downstreamCert = cert, pcfg = no_config\<rparr>))"

subsection \<open>Session numbers\<close>

text \<open>The loop of \<^verbatim>\<open>Serve\<close>: \<open>prev\<close> is \<^verbatim>\<open>lastSessionID\<close>, the list the clock readings of
  the accepted connections.\<close>

fun session_ids :: "int \<Rightarrow> int list \<Rightarrow> int list" where
  "session_ids prev [] = []"
| "session_ids prev (now # nows) =
     (let sid = (if now = prev then now + 1 else now) in sid # session_ids sid nows)"

subsection \<open>One connection\<close>

record pg_session =
  ps_sync_ok :: bool
  ps_hijack_ok :: bool
  ps_ParameterStatuses :: "(string \<times> string) list"
  ps_PID :: nat
  ps_SecretKey :: nat
  ps_TxStatus :: byte

text \<open>\<open>pw_stream\<close> is what the client sends on its connection, \<open>pw_tls_stream\<close> what it sends
  inside TLS (\<open>None\<close> when the handshake fails); \<open>pw_connect\<close> is what pgconn answers to a
  connection configuration in managed mode, an error text or a session.\<close>

record pg_world =
  pw_remote :: string
  pw_ident :: ident_world
  pw_stream :: bytes
  pw_tls_stream :: "bytes option"
  pw_dial_ok :: bool
  pw_ssl_write_ok :: bool
  pw_ssl_reply :: "byte option"
  pw_upstream_tls_ok :: bool
  pw_startup_write_ok :: bool
  pw_connect :: "pg_connect \<Rightarrow> string + pg_session"
  pw_handshake_write_ok :: bool

type_synonym outcome = "trace \<times> bytes option"

definition emit :: "trace \<Rightarrow> outcome \<Rightarrow> outcome" where
  "emit tr r = (tr @ fst r, snd r)"

definition deferred :: "trace \<Rightarrow> outcome \<Rightarrow> outcome" where
  "deferred tr r = (fst r @ tr, snd r)"

abbreviation failed :: "string \<Rightarrow> outcome" where
  "failed key \<equiv> ([ErrorAdd key], None)"

text \<open>The final copy, reached with what is left of the client's stream.\<close>

fun splice_rest :: "outcome \<Rightarrow> outcome" where
  "splice_rest (tr, None) = (tr, None)"
| "splice_rest (tr, Some rest) = (tr @ [Splice], Some rest)"

definition pg_errc_cap :: nat where
  "pg_errc_cap = 1"

text \<open>\<open>pre\<close> holds the bytes already read from a plaintext client.\<close>

definition forwardStartup :: "bytes \<Rightarrow> string \<Rightarrow> bytes option \<Rightarrow> bool \<Rightarrow> bool \<Rightarrow> outcome" where
  "forwardStartup stream injectAppName pre fromTS write_ok =
     (case (case pre of
              Some p \<Rightarrow> readStartupMessageWithPrefix stream p
            | None \<Rightarrow> readStartupMessage stream) of
        Inl e \<Rightarrow> failed ''bad-startup''
      | Inr (raw, rest) \<Rightarrow>
          (case rewriteStartup raw injectAppName fromTS of
             Inl e \<Rightarrow> failed ''bad-startup''
           | Inr out \<Rightarrow>
               emit [WriteUpstream out]
                 (if \<not> write_ok then failed ''network-error'' else ([], Some rest))))"

text \<open>\<open>buf\<close> is an array the handler reads into twice: first the client's opening message, then, into
  its first byte, the upstream's answer to the request for TLS. What a plaintext client has
  sent is later taken from this array, first byte overwritten.\<close>

definition serve_passthrough :: "proxy \<Rightarrow> identity \<Rightarrow> pg_world \<Rightarrow> outcome" where
  "serve_passthrough p i w =
     (case ReadFull 8 (pw_stream w) of
        None \<Rightarrow> failed ''network-error''
      | Some (first8, rest) \<Rightarrow>
          let clientIsTLS = (first8 = sslStart) in
          if \<not> clientIsTLS \<and> \<not> isPlaintextStartup first8 then failed ''client-bad-protocol''
          else
            emit [DialTCP (upstreamAddr p)]
            (if \<not> pw_dial_ok w then failed ''network-error''
             else deferred [CloseUpstream]
               (emit [WriteUpstream sslStart]
                 (if \<not> pw_ssl_write_ok w then failed ''network-error''
                  else case pw_ssl_reply w of
                    None \<Rightarrow> failed ''network-error''
                  | Some b \<Rightarrow>
                      let buf = first8[0 := b] in
                      if buf ! 0 \<noteq> CHR ''S'' then failed ''upstream-bad-protocol''
                      else emit [TLSUpstream (upstreamHost p)]
                        (if \<not> pw_upstream_tls_ok w then failed ''upstream-tls''
                         else if clientIsTLS then
                           emit [WriteClient ''S'', TLSClient (upstreamHost p)]
                             (case pw_tls_stream w of
                                None \<Rightarrow> failed ''client-tls''
                              | Some s \<Rightarrow>
                                  splice_rest (forwardStartup s (id_appName i) None (id_fromTS i)
                                    (pw_startup_write_ok w)))
                         else
                           splice_rest (forwardStartup rest (id_appName i) (Some buf) (id_fromTS i)
                             (pw_startup_write_ok w)))))))"

subsection \<open>Managed upstreams\<close>

text \<open>The pgx library: its URL parser, and the message encoders, each giving the bytes it appends
  to the buffer (\<open>None\<close> for an error).\<close>

record pgx =
  parseConfig :: "string \<Rightarrow> bool"
  encAuthenticationOk :: "bytes option"
  encParameterStatus :: "string \<Rightarrow> string \<Rightarrow> bytes option"
  encBackendKeyData :: "nat \<Rightarrow> nat \<Rightarrow> bytes option"
  encReadyForQuery :: "byte \<Rightarrow> bytes option"
  encErrorResponse :: "string \<Rightarrow> string \<Rightarrow> string \<Rightarrow> string \<Rightarrow> bytes option"

definition chooseDatabase :: "string \<Rightarrow> string \<Rightarrow> string \<Rightarrow> string" where
  "chooseDatabase clientUser clientDB defaultDB =
     (if clientDB \<noteq> [] \<and> clientDB \<noteq> clientUser then clientDB else defaultDB)"

fun concat_options :: "bytes option list \<Rightarrow> bytes option" where
  "concat_options [] = Some []"
| "concat_options (None # xs) = None"
| "concat_options (Some bs # xs) = map_option ((@) bs) (concat_options xs)"

text \<open>The map of parameter statuses comes in some order; the names are sorted.\<close>

definition writeManagedHandshake ::
  "pgx \<Rightarrow> (string \<times> string) list \<Rightarrow> nat \<Rightarrow> nat \<Rightarrow> byte \<Rightarrow> bool \<Rightarrow> trace \<times> bool" where
  "writeManagedHandshake px params pid secret txStatus write_ok =
     (case concat_options
        ([encAuthenticationOk px]
         @ map (\<lambda>name. encParameterStatus px name (get_str (map_of params) name))
             (sort (map fst params))
         @ [encBackendKeyData px pid secret, encReadyForQuery px txStatus]) of
        None \<Rightarrow> ([], False)
      | Some buf \<Rightarrow> ([WriteClient buf], write_ok))"

definition writeManagedError :: "pgx \<Rightarrow> string \<Rightarrow> trace" where
  "writeManagedError px msg =
     (case encErrorResponse px ''FATAL'' ''FATAL'' ''28000'' msg of
        None \<Rightarrow> []
      | Some buf \<Rightarrow> [WriteClient buf])"

definition runtime_params :: "(string \<Rightarrow> string option) \<Rightarrow> string \<Rightarrow> string \<Rightarrow> string option" where
  "runtime_params params appName =
     (let m = (\<lambda>k. if k \<in> {''user'', ''database'', app_key, ''replication''} then None else params k) in
      if appName \<noteq> [] then m(app_key \<mapsto> appName) else m)"

definition pg_url :: "proxy \<Rightarrow> string" where
  "pg_url p = ''postgres://'' @ upstreamAddr p @ ''/?sslmode=disable''"

definition managed_startup ::
  "pgx \<Rightarrow> proxy \<Rightarrow> identity \<Rightarrow> pg_world \<Rightarrow> startupError + bytes \<times> bytes \<Rightarrow> outcome" where
  "managed_startup px p i w msg =
     (case msg of
        Inl e \<Rightarrow> failed ''bad-startup''
      | Inr (raw, rest) \<Rightarrow>
          (case parseStartupParams raw of
             Inl e \<Rightarrow> failed ''bad-startup''
           | Inr params \<Rightarrow>
               let db = chooseDatabase (get_str params ''user'') (get_str params ''database'')
                          (u_DBName (pcfg p));
                   appName = finalAppName (get_str params app_key) (id_appName i) (id_fromTS i) in
               if \<not> parseConfig px (pg_url p)
               then ([], None)
               else
                 let cfg = \<lparr>cc_url = pg_url p, cc_User = u_User (pcfg p),
                       cc_Password = u_Password (pcfg p), cc_Database = db,
                       cc_ServerName = upstreamHost p, cc_RootCAs = upstreamCertPool p,
                       cc_RuntimeParams = runtime_params params appName\<rparr> in
                 emit [UpstreamConnect cfg]
                   (case pw_connect w cfg of
                      Inl err \<Rightarrow>
                        ([ErrorAdd ''upstream-connect'']
                         @ writeManagedError px (''private-gateway: upstream connection failed: '' @ err),
                         None)
                    | Inr ses \<Rightarrow>
                        if \<not> ps_sync_ok ses \<or> \<not> ps_hijack_ok ses then ([CloseUpstream], None)
                        else deferred [CloseUpstream]
                          (let (tr, ok) = writeManagedHandshake px (ps_ParameterStatuses ses)
                             (ps_PID ses) (ps_SecretKey ses) (ps_TxStatus ses)
                             (pw_handshake_write_ok w) in
                           emit tr
                             (if \<not> ok then failed ''network-error''
                              else splice_rest ([], Some rest))))))"

lemmas managed_defs = managed_startup_def writeManagedError_def writeManagedHandshake_def Let_def

definition serveManaged :: "pgx \<Rightarrow> proxy \<Rightarrow> identity \<Rightarrow> pg_world \<Rightarrow> outcome" where
  "serveManaged px p i w =
     (case ReadFull 8 (pw_stream w) of
        None \<Rightarrow> failed ''network-error''
      | Some (buf, rest) \<Rightarrow>
          if buf = sslStart then
            emit [WriteClient ''S'', TLSClient (upstreamHost p)]
              (case pw_tls_stream w of
                 None \<Rightarrow> failed ''client-tls''
               | Some s \<Rightarrow> managed_startup px p i w (readStartupMessage s))
          else if isPlaintextStartup buf then
            managed_startup px p i w (readStartupMessageWithPrefix rest buf)
          else failed ''client-bad-protocol'')"

subsection \<open>The whole handler\<close>

definition pg_serve ::
  "pgx \<Rightarrow> proxy \<Rightarrow> flags \<Rightarrow> pg_world \<Rightarrow> ident_caches \<Rightarrow> outcome \<times> ident_caches" where
  "pg_serve px p fl w s =
     (case identifyClient fl (pw_ident w) (pw_remote w) s of
        (tr, None, s') \<Rightarrow> (deferred [CloseClient] (tr, None), s')
      | (tr, Some i, s') \<Rightarrow>
          (deferred [CloseClient]
             (emit tr
                (if managed (pcfg p) then serveManaged px p i w else serve_passthrough p i w)),
           s'))"

text \<open>As a handler of the gate's contract: the events of a connection.\<close>

definition pg_handler :: "pgx \<Rightarrow> proxy \<Rightarrow> flags \<Rightarrow> pg_world \<times> ident_caches \<Rightarrow> trace" where
  "pg_handler px p fl ws = fst (fst (pg_serve px p fl (fst ws) (snd ws)))"

lemma identifyClient_class:
  "identifyClient fl w remote s = (tr, oi, s') \<Longrightarrow>
     (oi = None \<longleftrightarrow> classifyPeer fl remote = peerReject) \<and> outbound tr = []
     \<and> (\<forall>e \<in> set tr. \<exists>k. e = ErrorAdd k)"
  by (auto simp: identifyClient_def Let_def split_beta split: peerKind.splits if_splits)

interpretation pg_gate: gated_handler admit_classified "pg_handler px p" "\<lambda>ws. pw_remote (fst ws)"
  for px p
proof unfold_locales
  fix fl and ws :: "pg_world \<times> ident_caches"
  assume o: "outbound (pg_handler px p fl ws) \<noteq> []"
  obtain tr oi s' where i: "identifyClient fl (pw_ident (fst ws)) (pw_remote (fst ws)) (snd ws)
    = (tr, oi, s')" by (metis surj_pair)
  have "oi \<noteq> None"
    using o identifyClient_class [OF i] i
    by (auto simp: pg_handler_def pg_serve_def deferred_def)
  with identifyClient_class [OF i]
  show "admit_classified fl (classifyPeer fl (pw_remote (fst ws)))"
    by (simp add: admit_classified_def)
qed

end
