(* ===== verification/PgSessions.thy ===== *)
theory PgSessions
  imports PgProxy Framing
begin

text \<open>
  Correctness of the Postgres proxy: who it serves, that no client byte reaches an upstream
  whose TLS was not verified, exactly when a session reaches the splice and what was exchanged
  until then, which credentials a managed upstream sees and what a client can learn of them.
\<close>

subsection \<open>Reading and reaching the splice\<close>

lemma emit_simps [simp]:
  "emit tr (tr', r) = (tr @ tr', r)" "fst (emit tr x) = tr @ fst x" "snd (emit tr x) = snd x"
  by (simp_all add: emit_def)

lemma deferred_simps [simp]:
  "deferred tr (tr', r) = (tr' @ tr, r)" "fst (deferred tr x) = fst x @ tr"
  "snd (deferred tr x) = snd x"
  by (simp_all add: deferred_def)

lemma emit_eq_Some [outcome_iffs]: "emit tr x = (tr', Some r) \<longleftrightarrow> (\<exists>t. x = (t, Some r) \<and> tr' = tr @ t)"
  by (cases x) auto

lemma deferred_eq_Some [outcome_iffs]: "deferred tr x = (tr', Some r) \<longleftrightarrow> (\<exists>t. x = (t, Some r) \<and> tr' = t @ tr)"
  by (cases x) auto

lemma splice_rest_eq_Some [outcome_iffs]:
  "splice_rest x = (tr', Some r) \<longleftrightarrow> (\<exists>t. x = (t, Some r) \<and> tr' = t @ [Splice])"
  by (cases x rule: splice_rest.cases) auto

lemma not_plaintext_sslStart: "\<not> isPlaintextStartup sslStart"
  by code_simp

lemma length_sslStart: "length sslStart = 8"
  by (simp add: sslStart_def)

definition message_dec :: "bytes \<Rightarrow> (bytes \<times> bytes) option" where
  "message_dec s = (case readStartupMessage s of Inl e \<Rightarrow> None | Inr mr \<Rightarrow> Some mr)"

lemma message_dec_iff: "message_dec s = Some (raw, r) \<longleftrightarrow> framed raw \<and> s = raw @ r"
  using readStartupMessage_iff [of s raw r] by (auto simp: message_dec_def split: sum.splits)

interpretation startup_framing: framing "\<lambda>raw. raw" message_dec framed
  by unfold_locales (auto simp: message_dec_iff framed_def)

lemma forwardStartup_eq_Some [outcome_iffs]:
  "forwardStartup stream name pre ts wok = (tr, Some rest) \<longleftrightarrow>
     wok \<and> (\<exists>raw out. rewriteStartup raw name ts = Inr out \<and> tr = [WriteUpstream out] \<and>
       (case pre of None \<Rightarrow> readStartupMessage stream
        | Some b \<Rightarrow> readStartupMessageWithPrefix stream b) = Inr (raw, rest))"
  by (auto simp: forwardStartup_def split: sum.splits option.splits)

text \<open>What the client sends, in clear or inside TLS, is the startup message \<open>raw\<close>, then \<open>rest\<close>.\<close>

definition client_sends :: "pg_world \<Rightarrow> bool \<Rightarrow> bytes \<Rightarrow> bytes \<Rightarrow> bool" where
  "client_sends w tls raw rest =
     (framed raw \<and>
      (if tls then take 8 (pw_stream w) = sslStart \<and> pw_tls_stream w = Some (raw @ rest)
       else pw_stream w = raw @ rest \<and> isPlaintextStartup (take 8 raw)))"

definition tls_prelude :: "proxy \<Rightarrow> bool \<Rightarrow> trace" where
  "tls_prelude p tls = (if tls then [WriteClient ''S'', TLSClient (upstreamHost p)] else [])"

lemma client_opening:
  assumes "ReadFull 8 (pw_stream w) = Some (buf, left)"
  shows "client_sends w True raw rest \<longleftrightarrow>
      buf = sslStart \<and> (\<exists>s. pw_tls_stream w = Some s \<and> readStartupMessage s = Inr (raw, rest))"
    and "client_sends w False raw rest \<longleftrightarrow>
      isPlaintextStartup buf \<and> readStartupMessageWithPrefix left buf = Inr (raw, rest)"
proof -
  from ReadFull_SomeD [OF assms] have s: "pw_stream w = buf @ left" "length buf = 8" by auto
  show "client_sends w True raw rest \<longleftrightarrow>
      buf = sslStart \<and> (\<exists>s. pw_tls_stream w = Some s \<and> readStartupMessage s = Inr (raw, rest))"
    using s by (auto simp: client_sends_def readStartupMessage_iff)
  have "readStartupMessageWithPrefix left buf = Inr (raw, rest) \<longleftrightarrow> framed raw \<and> buf @ left = raw @ rest"
    using s by (intro readWithPrefix_iff) auto
  moreover have "take 8 raw = buf" if "framed raw" "buf @ left = raw @ rest"
  proof -
    have "take 8 (buf @ left) = take 8 raw" using that by (simp add: framed_def)
    then show ?thesis using s(2) by simp
  qed
  ultimately show "client_sends w False raw rest \<longleftrightarrow>
      isPlaintextStartup buf \<and> readStartupMessageWithPrefix left buf = Inr (raw, rest)"
    using s by (auto simp: client_sends_def)
qed

lemma client_sends_opening:
  "client_sends w tls raw rest \<Longrightarrow> \<exists>buf left. ReadFull 8 (pw_stream w) = Some (buf, left)"
proof -
  assume c: "client_sends w tls raw rest"
  have "8 \<le> length (pw_stream w)"
  proof (cases tls)
    case True
    with c have "length (take 8 (pw_stream w)) = 8"
      by (simp add: client_sends_def length_sslStart del: length_take)
    then show ?thesis by simp
  next
    case False
    with c show ?thesis by (simp add: client_sends_def framed_def)
  qed
  then show ?thesis by (simp add: ReadFull_def)
qed

lemma ReadFull_first: "ReadFull 8 s = Some (a, r) \<Longrightarrow> a[0 := b] ! 0 = b"
  by (auto dest: ReadFull_SomeD)

text \<open>A prefix whose first byte was overwritten announces more than 65536 bytes.\<close>

lemma clobbered_prefix:
  assumes "length first8 = 8"
  shows "\<exists>e. readStartupMessageWithPrefix r (first8[0 := CHR ''S'']) = Inl e"
proof -
  obtain c bs where o: "first8 = c # bs" "length bs = 7"
    using assms by (cases first8) auto
  have "Uint32 (take 4 (first8[0 := CHR ''S''])) = be_val (CHR ''S'' # take 3 bs)"
    by (simp add: Uint32_def o(1))
  also have "\<dots> \<ge> 0x53000000" using o(2) by (simp add: be_val_Cons)
  finally have "65536 < Uint32 (take 4 (first8[0 := CHR ''S'']))" by simp
  with assms show ?thesis by (auto simp: readStartupMessageWithPrefix_def Let_def)
qed

lemma forwardStartup_clobbered:
  "length first8 = 8 \<Longrightarrow>
     forwardStartup r name (Some (first8[0 := CHR ''S''])) ts ok = failed ''bad-startup''"
  using clobbered_prefix [of first8 r] by (auto simp: forwardStartup_def)

lemma passthrough_plaintext:
  assumes "ReadFull 8 (pw_stream w) = Some (first8, left)" "first8 \<noteq> sslStart"
  shows "snd (serve_passthrough p i w) = None"
    and "isPlaintextStartup first8 \<Longrightarrow> pw_dial_ok w \<Longrightarrow> pw_ssl_write_ok w \<Longrightarrow>
      pw_ssl_reply w = Some (CHR ''S'') \<Longrightarrow> pw_upstream_tls_ok w \<Longrightarrow>
      serve_passthrough p i w = ([DialTCP (upstreamAddr p), WriteUpstream sslStart,
        TLSUpstream (upstreamHost p), ErrorAdd ''bad-startup'', CloseUpstream], None)"
    and "e \<in> set (fst (serve_passthrough p i w)) \<Longrightarrow> e \<noteq> Splice \<and> (\<forall>bs. e = WriteUpstream bs \<longrightarrow> bs = sslStart)"
proof -
  have o: "length first8 = 8" using ReadFull_SomeD [OF assms(1)] by simp
  have nth: "first8[0 := b] ! 0 = b" for b using o by simp
  note defs = serve_passthrough_def forwardStartup_clobbered [OF o] nth Let_def
  show "snd (serve_passthrough p i w) = None"
    using assms by (auto simp: defs split: option.splits)
  show "serve_passthrough p i w = ([DialTCP (upstreamAddr p), WriteUpstream sslStart,
        TLSUpstream (upstreamHost p), ErrorAdd ''bad-startup'', CloseUpstream], None)"
    if "isPlaintextStartup first8" "pw_dial_ok w" "pw_ssl_write_ok w"
      "pw_ssl_reply w = Some (CHR ''S'')" "pw_upstream_tls_ok w"
    using assms that by (simp add: defs)
  show "e \<noteq> Splice \<and> (\<forall>bs. e = WriteUpstream bs \<longrightarrow> bs = sslStart)"
    if "e \<in> set (fst (serve_passthrough p i w))"
    using assms that by (auto simp: defs split: option.splits if_splits)
qed

lemma serve_passthrough_iff:
  "serve_passthrough p i w = (tr, Some rest) \<longleftrightarrow>
     pw_dial_ok w \<and> pw_ssl_write_ok w \<and> pw_ssl_reply w = Some (CHR ''S'') \<and> pw_upstream_tls_ok w
     \<and> pw_startup_write_ok w
     \<and> (\<exists>raw out. client_sends w True raw rest
         \<and> rewriteStartup raw (id_appName i) (id_fromTS i) = Inr out
         \<and> tr = [DialTCP (upstreamAddr p), WriteUpstream sslStart, TLSUpstream (upstreamHost p)]
             @ tls_prelude p True @ [WriteUpstream out, Splice, CloseUpstream])"
proof (cases "ReadFull 8 (pw_stream w)")
  case None
  with client_sends_opening [of w] show ?thesis by (auto simp: serve_passthrough_def)
next
  case (Some x)
  obtain first8 left where r: "ReadFull 8 (pw_stream w) = Some (first8, left)"
    using Some by (cases x) simp
  show ?thesis
  proof (cases "first8 = sslStart")
    case True
    then show ?thesis
      using client_opening(1) [OF r] r
      by (auto simp: serve_passthrough_def outcome_iffs tls_prelude_def length_sslStart Let_def
          split: option.splits)
  next
    case False
    then have "\<not> client_sends w True raw rest" for raw using client_opening(1) [OF r] by simp
    moreover have "serve_passthrough p i w \<noteq> (tr, Some rest)"
      using passthrough_plaintext(1) [OF r False, of p i] by auto
    ultimately show ?thesis by blast
  qed
qed

text \<open>C5: a passthrough session reaches the splice exactly when the client asks for TLS and sends,
  inside it, a framed startup message that can be rewritten, the upstream acknowledges and
  completes a verified TLS handshake, and the rewritten message is written; it has then done
  exactly this: dialed the configured target, asked for TLS, verified it under the target's
  host name, served the client its own TLS, sent the rewritten startup message, and spliced
  the client's remaining bytes; the upstream connection is closed.\<close>

theorem serve_passthrough_exact:
  "serve_passthrough p i w = (tr, Some rest) \<longleftrightarrow>
     pw_dial_ok w \<and> pw_ssl_write_ok w \<and> pw_ssl_reply w = Some (CHR ''S'') \<and> pw_upstream_tls_ok w
     \<and> pw_startup_write_ok w
     \<and> (\<exists>raw out. client_sends w True raw rest
         \<and> rewriteStartup raw (id_appName i) (id_fromTS i) = Inr out
         \<and> tr = [DialTCP (upstreamAddr p), WriteUpstream sslStart, TLSUpstream (upstreamHost p),
             WriteClient ''S'', TLSClient (upstreamHost p),
             WriteUpstream out, Splice, CloseUpstream])"
  by (simp add: serve_passthrough_iff tls_prelude_def)

subsection \<open>Who is served\<close>

text \<open>C3: the Postgres proxy, in both modes, reaches out for trusted sources only: a connection
  from anywhere else gets nothing but a refusal, counted once, and is closed; whenever anything
  was sent or connected upstream the peer's address lies in a trusted range.\<close>

theorem pg_serve_gate:
  "(if classifyPeer fl (pw_remote w) = peerReject
    then pg_serve px p fl w s = (([ErrorAdd ''disallowed-source'', CloseClient], None), s)
    else last (fst (fst (pg_serve px p fl w s))) = CloseClient)
   \<and> (outbound (fst (fst (pg_serve px p fl w s))) = [] \<or>
        (\<exists>ip. remote_ip (pw_remote w) = Some ip \<and>
          (onFly fl \<and> in_fly_6pn ip \<or> tailscaleEnabled fl \<and> in_tailnet ip)))"
proof -
  obtain tr oi s' where i: "identifyClient fl (pw_ident w) (pw_remote w) s = (tr, oi, s')"
    by (metis surj_pair)
  have "classifyPeer fl (pw_remote w) = peerReject \<Longrightarrow>
      identifyClient fl (pw_ident w) (pw_remote w) s = ([ErrorAdd ''disallowed-source''], None, s)"
    by (simp add: identifyClient_def)
  moreover have "last (fst (fst (pg_serve px p fl w s))) = CloseClient"
    using i by (cases oi) (simp_all add: pg_serve_def)
  moreover have "outbound (fst (fst (pg_serve px p fl w s))) = [] \<or>
      (\<exists>ip. remote_ip (pw_remote w) = Some ip \<and>
        (onFly fl \<and> in_fly_6pn ip \<or> tailscaleEnabled fl \<and> in_tailnet ip))"
    using pg_gate.outbound_trusted [of px p fl "(w, s)"] by (auto simp: pg_handler_def)
  ultimately show ?thesis by (simp add: pg_serve_def)
qed

subsection \<open>TLS to the upstream\<close>

text \<open>Events that carry session data to the upstream: everything written but the fixed request
  for TLS, and the splice.\<close>

fun carries_data :: "event \<Rightarrow> bool" where
  "carries_data (WriteUpstream bs) = (bs \<noteq> sslStart)"
| "carries_data Splice = True"
| "carries_data _ = False"

fun secure_from :: "string \<Rightarrow> bool \<Rightarrow> trace \<Rightarrow> bool" where
  "secure_from host verified [] = True"
| "secure_from host verified (e # tr) =
     ((carries_data e \<longrightarrow> verified) \<and> secure_from host (verified \<or> e = TLSUpstream host) tr)"

lemma secure_from_True [simp]: "secure_from host True tr"
  by (induction tr) auto

lemma secure_from_inert:
  "list_all (\<lambda>e. \<not> carries_data e) tr \<Longrightarrow> secure_from host v tr"
  by (induction tr arbitrary: v) auto

lemma secure_from_append:
  "list_all (\<lambda>e. \<not> carries_data e) xs \<Longrightarrow> secure_from host v ys \<Longrightarrow> secure_from host v (xs @ ys)"
proof (induction xs arbitrary: v)
  case (Cons e xs)
  have "secure_from host (v \<or> e = TLSUpstream host) (xs @ ys)"
    using Cons by (cases v; cases "e = TLSUpstream host") auto
  with Cons show ?case by simp
qed simp

text \<open>What \<open>secure_from\<close> means: data events come after the handshake.\<close>

lemma secure_from_split:
  "secure_from host v (xs @ e # ys) \<Longrightarrow> carries_data e \<Longrightarrow> v \<or> TLSUpstream host \<in> set xs"
  by (induction xs arbitrary: v) auto

lemma passthrough_secure: "secure_from (upstreamHost p) False (fst (serve_passthrough p i w))"
proof -
  have "secure_from h v (tr @ [CloseUpstream])" if "secure_from h v tr" for h v tr
    using that by (induction tr arbitrary: v) auto
  then show ?thesis
    by (auto simp: serve_passthrough_def Let_def split: option.splits)
qed

lemma passthrough_needs_tls:
  "\<not> (pw_dial_ok w \<and> pw_ssl_reply w = Some (CHR ''S'') \<and> pw_upstream_tls_ok w) \<Longrightarrow>
     list_all (\<lambda>e. \<not> carries_data e) (fst (serve_passthrough p i w))"
  by (auto simp: serve_passthrough_def Let_def ReadFull_first split: option.splits)

text \<open>C4: the upstream link is never plaintext: in a passthrough session no startup message
  and no spliced byte goes to the upstream before a TLS handshake that verifies the configured
  target's host name, and none at all when the upstream declines TLS or the handshake fails.\<close>

theorem upstream_data_after_tls:
  assumes "\<not> managed (pcfg p)"
  shows "(\<forall>xs e ys. fst (fst (pg_serve px p fl w s)) = xs @ e # ys \<and> carries_data e \<longrightarrow>
      TLSUpstream (upstreamHost p) \<in> set xs)
    \<and> ((\<exists>e \<in> set (fst (fst (pg_serve px p fl w s))). carries_data e) \<longrightarrow>
      pw_ssl_reply w = Some (CHR ''S'') \<and> pw_upstream_tls_ok w)"
proof -
  obtain tr oi s' where i: "identifyClient fl (pw_ident w) (pw_remote w) s = (tr, oi, s')"
    by (metis surj_pair)
  have tr: "list_all (\<lambda>e. \<not> carries_data e) tr"
    using identifyClient_class [OF i] by (auto simp: list_all_iff)
  obtain body where body: "fst (fst (pg_serve px p fl w s)) = tr @ body @ [CloseClient]"
    "secure_from (upstreamHost p) False (body @ [CloseClient])"
    "(\<exists>e \<in> set body. carries_data e) \<Longrightarrow> pw_ssl_reply w = Some (CHR ''S'') \<and> pw_upstream_tls_ok w"
  proof (cases oi)
    case None
    with i show thesis by (intro that [of "[]"]) (simp_all add: pg_serve_def)
  next
    case (Some idn)
    have c: "secure_from h v (xs @ [CloseClient])" if "secure_from h v xs" for h v xs
      using that by (induction xs arbitrary: v) auto
    show thesis
    proof (rule that [of "fst (serve_passthrough p idn w)"])
      show "fst (fst (pg_serve px p fl w s)) = tr @ fst (serve_passthrough p idn w) @ [CloseClient]"
        using i Some assms by (simp add: pg_serve_def)
      show "secure_from (upstreamHost p) False (fst (serve_passthrough p idn w) @ [CloseClient])"
        by (rule c [OF passthrough_secure])
      show "(\<exists>e \<in> set (fst (serve_passthrough p idn w)). carries_data e) \<Longrightarrow>
          pw_ssl_reply w = Some (CHR ''S'') \<and> pw_upstream_tls_ok w"
        using passthrough_needs_tls [of w p idn] by (auto simp: list_all_iff)
    qed
  qed
  have "secure_from (upstreamHost p) False (fst (fst (pg_serve px p fl w s)))"
    unfolding body(1) by (rule secure_from_append [OF tr body(2)])
  then have 1: "\<forall>xs e ys. fst (fst (pg_serve px p fl w s)) = xs @ e # ys \<and> carries_data e \<longrightarrow>
      TLSUpstream (upstreamHost p) \<in> set xs"
    using secure_from_split by fastforce
  have "(\<exists>e \<in> set (fst (fst (pg_serve px p fl w s))). carries_data e) \<longrightarrow>
      pw_ssl_reply w = Some (CHR ''S'') \<and> pw_upstream_tls_ok w"
    using body(3) tr unfolding body(1) by (auto simp: list_all_iff)
  with 1 show ?thesis by blast
qed

text \<open>A session, worked out: a tailnet-style identity, a plaintext client with parameters of
  every kind, an upstream that grants everything.\<close>

definition demo_px :: pgx where
  "demo_px = \<lparr>parseConfig = (\<lambda>url. True), encAuthenticationOk = Some ''R'',
     encParameterStatus = (\<lambda>n v. Some (''S'' @ n @ ''='' @ v)),
     encBackendKeyData = (\<lambda>pid key. Some ''K''), encReadyForQuery = (\<lambda>b. Some [CHR ''Z'', b]),
     encErrorResponse = (\<lambda>s u c m. Some (''E'' @ m))\<rparr>"

definition demo_proxy :: "string \<Rightarrow> proxy" where
  "demo_proxy role = \<lparr>upstreamAddr = ''db:5432'', upstreamHost = ''db'', upstreamCertPool = ''ca'',
     downstreamCert = ([], [], \<lparr>SerialNumber = 1, Organization = [], DNSNames = [''db''],
       NotBefore = 0, NotAfter = 1, digitalSignature = True, serverAuth = True,
       BasicConstraintsValid = True\<rparr>),
     pcfg = \<lparr>u_Name = ''db'', u_Listen = 5432, u_Target = ''db:5432'', u_DBName = ''prod'',
       u_User = role, u_Password = ''secret''\<rparr>\<rparr>"

definition demo_identity :: identity where
  "demo_identity = \<lparr>id_user = ''amit'', id_machine = ''laptop'', id_appName = ''amit'',
     id_fromTS = True\<rparr>"

definition demo_startup :: bytes where
  "demo_startup = encode_startup [(''user'', ''joe''), (''database'', ''joe''), (''replication'', ''1''),
     (app_key, ''psql''), (''TimeZone'', ''UTC'')]"

definition demo_pg_world :: pg_world where
  "demo_pg_world = \<lparr>pw_remote = ''[fdaa::1]:4711'', pw_ident = demo_world,
     pw_stream = demo_startup @ ''Q'', pw_tls_stream = None, pw_dial_ok = True,
     pw_ssl_write_ok = True, pw_ssl_reply = Some (CHR ''S''), pw_upstream_tls_ok = True,
     pw_startup_write_ok = True,
     pw_connect = (\<lambda>cfg. if cc_Password cfg = ''secret'' then Inr \<lparr>ps_sync_ok = True,
         ps_hijack_ok = True,
         ps_ParameterStatuses = [(''TimeZone'', ''UTC''), (''DateStyle'', ''ISO'')], ps_PID = 7,
         ps_SecretKey = 9, ps_TxStatus = CHR ''I''\<rparr>
       else Inl ''password authentication failed''),
     pw_handshake_write_ok = True\<rparr>"

text \<open>The same client inside TLS.\<close>

definition demo_tls_world :: pg_world where
  "demo_tls_world = demo_pg_world\<lparr>pw_stream := sslStart @ ''hello'',
     pw_tls_stream := Some (demo_startup @ ''Q'')\<rparr>"

definition demo_pg_flags :: flags where
  "demo_pg_flags = \<lparr>destinationPgDbs = [], destinationTCPTargets = [], flyListenHost = ''[::]'',
     httpProxyListen = [], tailscaleEnabled = False, httpProxyAllowTailscale = False,
     debugPort = 80, upstreamCA = ''ca.pem'', dnsResolver = [], aliasDomainFlag = [],
     internalDomainFlag = [], FLY_APP_NAME = ''gateway''\<rparr>"

lemma splice_rest_Splice: "snd (splice_rest x) = Some r \<Longrightarrow> Splice \<in> set (fst (splice_rest x))"
  by (cases x rule: splice_rest.cases) auto

lemma serve_passthrough_Splice:
  "snd (serve_passthrough p i w) = Some r \<Longrightarrow> Splice \<in> set (fst (serve_passthrough p i w))"
  by (auto simp: serve_passthrough_def splice_rest_Splice Let_def split: option.splits if_splits)

theorem upstream_data_after_tls_witness:
  "\<exists>xs ys. fst (fst (pg_serve demo_px (demo_proxy []) demo_pg_flags demo_tls_world empty_caches))
      = xs @ Splice # ys \<and> TLSUpstream ''db'' \<in> set xs"
proof -
  let ?run = "pg_serve demo_px (demo_proxy []) demo_pg_flags demo_tls_world empty_caches"
  have unmanaged: "\<not> managed (pcfg (demo_proxy []))" by code_simp
  have some: "snd (fst ?run) = Some ''Q''" by code_simp
  obtain tr oi s' where i: "identifyClient demo_pg_flags (pw_ident demo_tls_world)
      (pw_remote demo_tls_world) empty_caches = (tr, oi, s')" by (metis surj_pair)
  with some have "oi \<noteq> None" by (cases oi) (auto simp: pg_serve_def)
  with i some unmanaged have "Splice \<in> set (fst (fst ?run))"
    by (auto simp: pg_serve_def intro: serve_passthrough_Splice)
  then obtain xs ys where sp: "fst (fst ?run) = xs @ Splice # ys" by (meson split_list)
  from upstream_data_after_tls [OF unmanaged, of demo_px demo_pg_flags demo_tls_world empty_caches] sp
  have "TLSUpstream (upstreamHost (demo_proxy [])) \<in> set xs" by auto
  with sp show ?thesis by (auto simp: demo_proxy_def)
qed

subsection \<open>Plaintext clients\<close>

text \<open>C25: a client that does not ask for TLS is never served by a passthrough entry, although its
  opening message is recognised and it is dialed for: the upstream's answer to the request for
  TLS is read into the first byte of the array that holds the client's first eight bytes, so
  the startup message taken from that array announces more than 65536 bytes. Nothing the client
  sent goes upstream and nothing is spliced; when the upstream does everything right, the
  session ends as a bad startup after its verified TLS handshake.\<close>

theorem plaintext_passthrough_refused:
  assumes "\<not> managed (pcfg p)" "isPlaintextStartup (take 8 (pw_stream w))"
    and "8 \<le> length (pw_stream w)"
  shows "snd (fst (pg_serve px p fl w s)) = None
    \<and> (\<forall>e \<in> set (fst (fst (pg_serve px p fl w s))). \<not> carries_data e)
    \<and> (classifyPeer fl (pw_remote w) \<noteq> peerReject \<and> pw_dial_ok w \<and> pw_ssl_write_ok w
        \<and> pw_ssl_reply w = Some (CHR ''S'') \<and> pw_upstream_tls_ok w \<longrightarrow>
      (\<exists>es. (\<forall>e \<in> set es. \<exists>k. e = ErrorAdd k) \<and> fst (fst (pg_serve px p fl w s)) =
        es @ [DialTCP (upstreamAddr p), WriteUpstream sslStart, TLSUpstream (upstreamHost p),
          ErrorAdd ''bad-startup'', CloseUpstream, CloseClient]))"
proof -
  obtain tr oi s' where i: "identifyClient fl (pw_ident w) (pw_remote w) s = (tr, oi, s')"
    by (metis surj_pair)
  note cl = identifyClient_class [OF i]
  have r: "ReadFull 8 (pw_stream w) = Some (take 8 (pw_stream w), drop 8 (pw_stream w))"
    using assms(3) by (simp add: ReadFull_def)
  have n: "take 8 (pw_stream w) \<noteq> sslStart" using assms(2) not_plaintext_sslStart by metis
  note pt = passthrough_plaintext [OF r n]
  have quiet: "\<not> carries_data e" if "e \<in> set (fst (serve_passthrough p idn w))" for e idn
    using pt(3) [OF that] by (cases e) auto
  show ?thesis
  proof (cases oi)
    case None
    with cl i show ?thesis by (auto simp: pg_serve_def)
  next
    case (Some idn)
    have run: "pg_serve px p fl w s =
        ((tr @ fst (serve_passthrough p idn w) @ [CloseClient], None), s')"
      using i Some assms(1) pt(1) [of p idn]
      by (cases "serve_passthrough p idn w") (simp add: pg_serve_def)
    have "\<not> carries_data e" if "e \<in> set tr" for e using cl that by auto
    with quiet cl pt(2) [OF assms(2), of p idn] show ?thesis unfolding run by auto
  qed
qed

theorem plaintext_passthrough_refused_witness:
  "snd (fst (pg_serve demo_px (demo_proxy []) demo_pg_flags demo_pg_world empty_caches)) = None
   \<and> ErrorAdd ''bad-startup''
       \<in> set (fst (fst (pg_serve demo_px (demo_proxy []) demo_pg_flags demo_pg_world empty_caches)))"
proof -
  have h: "\<not> managed (pcfg (demo_proxy []))" "isPlaintextStartup (take 8 (pw_stream demo_pg_world))"
    "8 \<le> length (pw_stream demo_pg_world)"
    "classifyPeer demo_pg_flags (pw_remote demo_pg_world) \<noteq> peerReject"
    by (code_simp, code_simp, code_simp, code_simp)
  have up: "pw_dial_ok demo_pg_world" "pw_ssl_write_ok demo_pg_world"
    "pw_ssl_reply demo_pg_world = Some (CHR ''S'')" "pw_upstream_tls_ok demo_pg_world"
    by (simp_all add: demo_pg_world_def)
  from plaintext_passthrough_refused [OF h(1-3), of demo_px demo_pg_flags empty_caches] h(4) up
  show ?thesis by auto
qed

subsection \<open>Counters and session numbers\<close>

lemma no_counts:
  "(\<forall>e \<in> set (fst (serve_passthrough p i w)). e \<noteq> StartedAdd \<and> active_delta e = 0)"
  "(\<forall>e \<in> set (fst (serveManaged px p i w)). e \<noteq> StartedAdd \<and> active_delta e = 0)"
proof -
  have f: "\<forall>e \<in> set (fst (splice_rest (forwardStartup st nm pre ts ok))). e \<noteq> StartedAdd \<and> active_delta e = 0"
    for st nm pre ts ok
    by (auto simp: forwardStartup_def split: sum.splits)
  then show "\<forall>e \<in> set (fst (serve_passthrough p i w)). e \<noteq> StartedAdd \<and> active_delta e = 0"
    by (auto simp: serve_passthrough_def Let_def split: option.splits if_splits)
  have "\<forall>e \<in> set (fst (managed_startup px p i w msg)). e \<noteq> StartedAdd \<and> active_delta e = 0" for msg
    by (auto simp: managed_defs
        split: sum.splits option.splits if_splits)
  then show "\<forall>e \<in> set (fst (serveManaged px p i w)). e \<noteq> StartedAdd \<and> active_delta e = 0"
    by (auto simp: serveManaged_def split: option.splits if_splits)
qed

lemma pg_serve_inert:
  "e \<in> set (fst (fst (pg_serve px p fl w s))) \<Longrightarrow> e \<noteq> StartedAdd \<and> active_delta e = 0"
proof -
  obtain tr oi s' where i: "identifyClient fl (pw_ident w) (pw_remote w) s = (tr, oi, s')"
    by (metis surj_pair)
  show "e \<in> set (fst (fst (pg_serve px p fl w s))) \<Longrightarrow> e \<noteq> StartedAdd \<and> active_delta e = 0"
  proof (cases oi)
    case None
    assume "e \<in> set (fst (fst (pg_serve px p fl w s)))"
    with None identifyClient_class [OF i] i show ?thesis by (auto simp: pg_serve_def)
  next
    case (Some idn)
    assume "e \<in> set (fst (fst (pg_serve px p fl w s)))"
    with Some identifyClient_class [OF i] i no_counts(1) [of p idn w] no_counts(2) [of px p idn w]
    show ?thesis by (auto simp: pg_serve_def split: if_splits)
  qed
qed

text \<open>The published session counters of a Postgres proxy never move, however many sessions
  are spliced: the handler adds to neither.\<close>

lemma starts_0: "(\<And>e. e \<in> set tr \<Longrightarrow> e \<noteq> StartedAdd) \<Longrightarrow> starts tr = 0"
proof (induction tr)
  case (Cons e tr)
  then show ?case by (cases e) auto
qed simp

lemma pg_sessions_uncounted:
  "activeSessions (fold count_event (fst (fst (pg_serve px p fl w s))) m) = activeSessions m
   \<and> startedSessions (fold count_event (fst (fst (pg_serve px p fl w s))) m) = startedSessions m"
proof -
  have "net (fst (fst (pg_serve px p fl w s))) = 0"
    by (rule net_no_active) (auto simp: list_all_iff dest: pg_serve_inert)
  moreover have "starts (fst (fst (pg_serve px p fl w s))) = 0"
    by (rule starts_0) (auto dest: pg_serve_inert)
  ultimately show ?thesis by (simp add: fold_count_event)
qed

text \<open>Session numbers: two sessions in a row never share one, but three accepted at the same
  clock reading do.\<close>

lemma session_ids_adjacent:
  "Suc k < length (session_ids prev nows) \<Longrightarrow>
     session_ids prev nows ! k \<noteq> session_ids prev nows ! Suc k"
proof (induction prev nows arbitrary: k rule: session_ids.induct)
  case (2 prev now nows)
  then show ?case
    by (cases nows; cases k) (auto simp: Let_def)
qed simp

lemma session_ids_repeat: "session_ids 0 [7, 7, 7] = [7, 8, 7]"
  by simp

end
