(* ===== verification/PgManaged.thy ===== *)
theory PgManaged
  imports PgSessions
begin

text \<open>
  Correctness of the managed mode: the credentials, database and parameters of the upstream
  connection as a function of the client's startup message, what the client is told and when,
  and that the configured password has no influence on anything the client receives.
\<close>

subsection \<open>The upstream connection\<close>




subsection \<open>What the client is told\<close>

definition client_visible :: "event \<Rightarrow> bool" where
  "client_visible e = (case e of WriteClient bs \<Rightarrow> True | TLSClient n \<Rightarrow> True | Splice \<Rightarrow> True
     | CloseClient \<Rightarrow> True | _ \<Rightarrow> False)"

abbreviation client_view :: "trace \<Rightarrow> trace" where
  "client_view \<equiv> filter client_visible"

definition with_password :: "string \<Rightarrow> proxy \<Rightarrow> proxy" where
  "with_password pw p = p\<lparr>pcfg := (pcfg p)\<lparr>u_Password := pw\<rparr>\<rparr>"

lemma with_password_simps [simp]:
  "upstreamAddr (with_password pw p) = upstreamAddr p"
  "upstreamHost (with_password pw p) = upstreamHost p"
  "upstreamCertPool (with_password pw p) = upstreamCertPool p"
  "u_User (pcfg (with_password pw p)) = u_User (pcfg p)"
  "u_DBName (pcfg (with_password pw p)) = u_DBName (pcfg p)"
  "u_Password (pcfg (with_password pw p)) = pw"
  "managed (pcfg (with_password pw p)) = managed (pcfg p)"
  "pg_url (with_password pw p) = pg_url p"
  by (simp_all add: with_password_def managed_def pg_url_def)

lemma client_visible_simps [simp]:
  "client_visible (WriteClient bs)" "client_visible (TLSClient n)"
  "\<not> client_visible (ErrorAdd k)" "\<not> client_visible (UpstreamConnect c)"
  by (simp_all add: client_visible_def)

text \<open>What pgconn answers is the same with the password \<open>pw\<close> as with the configured one.\<close>

definition same_answers :: "string \<Rightarrow> proxy \<Rightarrow> pg_world \<Rightarrow> bool" where
  "same_answers pw p w \<longleftrightarrow>
     (\<forall>cfg. cc_Password cfg = u_Password (pcfg p) \<longrightarrow>
        pw_connect w (cfg\<lparr>cc_Password := pw\<rparr>) = pw_connect w cfg)"

lemma managed_startup_password:
  assumes "same_answers pw p w"
  shows "client_view (fst (managed_startup px (with_password pw p) i w msg))
     = client_view (fst (managed_startup px p i w msg))
   \<and> snd (managed_startup px (with_password pw p) i w msg) = snd (managed_startup px p i w msg)"
proof -
  have "pw_connect w \<lparr>cc_url = a, cc_User = b, cc_Password = pw, cc_Database = c, cc_ServerName = d,
        cc_RootCAs = e, cc_RuntimeParams = f\<rparr>
      = pw_connect w \<lparr>cc_url = a, cc_User = b, cc_Password = u_Password (pcfg p), cc_Database = c,
        cc_ServerName = d, cc_RootCAs = e, cc_RuntimeParams = f\<rparr>" for a b c d e f
    using assms [unfolded same_answers_def, rule_format, of "\<lparr>cc_url = a, cc_User = b,
      cc_Password = u_Password (pcfg p), cc_Database = c, cc_ServerName = d, cc_RootCAs = e,
      cc_RuntimeParams = f\<rparr>"] by simp
  then show ?thesis
    by (simp add: managed_startup_def Let_def split: sum.splits option.splits prod.splits)
qed

lemma serveManaged_password:
  assumes "same_answers pw p w"
  shows "client_view (fst (serveManaged px (with_password pw p) i w))
     = client_view (fst (serveManaged px p i w))
   \<and> snd (serveManaged px (with_password pw p) i w) = snd (serveManaged px p i w)"
  using managed_startup_password [OF assms, of px i]
  by (simp add: serveManaged_def split: option.splits)

lemma serve_passthrough_password:
  "serve_passthrough (with_password pw p) i w = serve_passthrough p i w"
  unfolding serve_passthrough_def with_password_simps ..

text \<open>C9: a client learns of the configured password nothing but what pgconn tells it: if pgconn
  answers a connection attempt with another password alike (the same session, or the same
  error text, which the proxy passes on to the client), the client sees the same bytes, the
  same handshakes and the same end of its connection. A proxy that put the password itself
  into anything it writes to the client would not have this property.\<close>

theorem password_never_visible:
  assumes "same_answers pw p w"
  shows "client_view (fst (fst (pg_serve px (with_password pw p) fl w s)))
     = client_view (fst (fst (pg_serve px p fl w s)))
   \<and> snd (fst (pg_serve px (with_password pw p) fl w s)) = snd (fst (pg_serve px p fl w s))
   \<and> snd (pg_serve px (with_password pw p) fl w s) = snd (pg_serve px p fl w s)"
proof -
  obtain tr oi s' where i: "identifyClient fl (pw_ident w) (pw_remote w) s = (tr, oi, s')"
    by (metis surj_pair)
  show ?thesis
  proof (cases oi)
    case None
    with i show ?thesis by (simp add: pg_serve_def)
  next
    case (Some idn)
    with i serveManaged_password [OF assms, of px idn] serve_passthrough_password [of pw p idn w]
    show ?thesis by (simp add: pg_serve_def)
  qed
qed

subsection \<open>The replayed handshake\<close>

lemma concat_options_Some:
  "concat_options xs = Some bs \<longleftrightarrow> list_all (\<lambda>x. x \<noteq> None) xs \<and> bs = concat (map the xs)"
  by (induction xs arbitrary: bs rule: concat_options.induct) auto

text \<open>The handshake a client must see: authentication accepted, every parameter of the upstream's
  session once, by name, the upstream's own cancellation key, and readiness.\<close>

definition handshake_of :: "pgx \<Rightarrow> pg_session \<Rightarrow> bytes \<Rightarrow> bool" where
  "handshake_of px ses bs =
     (\<exists>names ok key ready. encAuthenticationOk px = Some ok
        \<and> encBackendKeyData px (ps_PID ses) (ps_SecretKey ses) = Some key
        \<and> encReadyForQuery px (ps_TxStatus ses) = Some ready
        \<and> sorted names \<and> distinct names \<and> set names = dom (map_of (ps_ParameterStatuses ses))
        \<and> list_all (\<lambda>n. encParameterStatus px n (the (map_of (ps_ParameterStatuses ses) n)) \<noteq> None) names
        \<and> bs = ok @ concat (map (\<lambda>n. the (encParameterStatus px n
                    (the (map_of (ps_ParameterStatuses ses) n)))) names) @ key @ ready)"

lemma writeManagedHandshake_ok:
  assumes "writeManagedHandshake px (ps_ParameterStatuses ses) (ps_PID ses) (ps_SecretKey ses)
      (ps_TxStatus ses) wok = (tr, True)"
    and d: "distinct (map fst (ps_ParameterStatuses ses))"
  shows "wok \<and> (\<exists>bs. tr = [WriteClient bs] \<and> handshake_of px ses bs)"
proof -
  let ?ps = "ps_ParameterStatuses ses"
  let ?names = "sort (map fst ?ps)"
  have g: "get_str (map_of ?ps) n = the (map_of ?ps n)" if "n \<in> set ?names" for n
  proof -
    have "map_of ?ps n \<noteq> None" using that by (simp add: map_of_eq_None_iff)
    then show ?thesis by (auto simp: get_str_def)
  qed
  from assms(1) obtain bs where tr: "wok" "tr = [WriteClient bs]"
    and c: "concat_options ([encAuthenticationOk px]
         @ map (\<lambda>n. encParameterStatus px n (get_str (map_of ?ps) n)) ?names
         @ [encBackendKeyData px (ps_PID ses) (ps_SecretKey ses), encReadyForQuery px (ps_TxStatus ses)])
       = Some bs"
    by (auto simp: writeManagedHandshake_def split: option.splits)
  have m: "map (\<lambda>n. encParameterStatus px n (get_str (map_of ?ps) n)) ?names
      = map (\<lambda>n. encParameterStatus px n (the (map_of ?ps n))) ?names"
    using g by (intro map_cong) simp_all
  from c [unfolded m concat_options_Some] obtain ok key ready where
    e: "encAuthenticationOk px = Some ok"
    "encBackendKeyData px (ps_PID ses) (ps_SecretKey ses) = Some key"
    "encReadyForQuery px (ps_TxStatus ses) = Some ready"
    by auto
  have "handshake_of px ses bs"
    unfolding handshake_of_def
  proof (intro exI conjI)
    show "sorted ?names" "distinct ?names" using d by simp_all
    show "set ?names = dom (map_of ?ps)" by (simp add: dom_map_of_conv_image_fst)
    show "list_all (\<lambda>n. encParameterStatus px n (the (map_of ?ps n)) \<noteq> None) ?names"
      using c [unfolded m concat_options_Some] by (simp add: list_all_iff)
    show "bs = ok @ concat (map (\<lambda>n. the (encParameterStatus px n (the (map_of ?ps n)))) ?names)
        @ key @ ready"
      using c [unfolded m concat_options_Some] e by (simp add: o_def)
  qed (use e in simp_all)
  with tr show ?thesis by blast
qed

lemma managed_startup_Some:
  assumes "managed_startup px p i w msg = (tr, Some rest)"
    and d: "\<forall>c ses. pw_connect w c = Inr ses \<longrightarrow> distinct (map fst (ps_ParameterStatuses ses))"
  shows "\<exists>raw ses c bs. msg = Inr (raw, rest) \<and> pw_connect w c = Inr ses \<and> ps_sync_ok ses
    \<and> ps_hijack_ok ses \<and> handshake_of px ses bs
    \<and> tr = [UpstreamConnect c, WriteClient bs, Splice, CloseUpstream]"
proof -
  from assms(1) obtain raw r where msg: "msg = Inr (raw, r)"
    by (auto simp: managed_startup_def split: sum.splits)
  with assms(1) obtain params where p: "parseStartupParams raw = Inr params"
    by (auto simp: managed_startup_def split: sum.splits)
  define cfg where "cfg = \<lparr>cc_url = pg_url p, cc_User = u_User (pcfg p),
    cc_Password = u_Password (pcfg p),
    cc_Database = chooseDatabase (get_str params ''user'') (get_str params ''database'')
      (u_DBName (pcfg p)),
    cc_ServerName = upstreamHost p, cc_RootCAs = upstreamCertPool p,
    cc_RuntimeParams = runtime_params params
      (finalAppName (get_str params app_key) (id_appName i) (id_fromTS i))\<rparr>"
  note run = assms(1) [unfolded msg managed_startup_def sum.case prod.case p Let_def,
      folded cfg_def]
  from run obtain ses where ses: "pw_connect w cfg = Inr ses" "ps_sync_ok ses" "ps_hijack_ok ses"
    by (auto split: sum.splits if_splits)
  obtain trh ok where h: "writeManagedHandshake px (ps_ParameterStatuses ses) (ps_PID ses)
      (ps_SecretKey ses) (ps_TxStatus ses) (pw_handshake_write_ok w) = (trh, ok)"
    by (meson surj_pair)
  from run ses h have ok: "ok" "r = rest"
    and tr: "tr = [UpstreamConnect cfg] @ trh @ [Splice, CloseUpstream]"
    by (auto split: if_splits)
  from h ok(1) have h': "writeManagedHandshake px (ps_ParameterStatuses ses) (ps_PID ses)
      (ps_SecretKey ses) (ps_TxStatus ses) (pw_handshake_write_ok w) = (trh, True)" by simp
  from writeManagedHandshake_ok [OF h' d [rule_format, OF ses(1)]] obtain bs where
    "trh = [WriteClient bs]" "handshake_of px ses bs" by blast
  with tr msg ok(2) ses show ?thesis by auto
qed

text \<open>C10: a managed client is let in exactly as the upstream let the proxy in: a session that
  reaches the splice read a startup message from the client, connected and authenticated
  upstream first, and only then sent the client one message block: authentication accepted,
  each of the upstream's parameters once in name order, the upstream's cancellation key and
  its readiness; nothing else was exchanged before the splice, which starts with the bytes
  that follow the startup message.\<close>

theorem serveManaged_handshake:
  assumes "serveManaged px p i w = (tr, Some rest)"
    and "\<forall>c ses. pw_connect w c = Inr ses \<longrightarrow> distinct (map fst (ps_ParameterStatuses ses))"
  shows "\<exists>tls raw ses c bs. client_sends w tls raw rest \<and> pw_connect w c = Inr ses
    \<and> ps_sync_ok ses \<and> ps_hijack_ok ses \<and> handshake_of px ses bs
    \<and> tr = tls_prelude p tls @ [UpstreamConnect c, WriteClient bs, Splice, CloseUpstream]"
proof (cases "ReadFull 8 (pw_stream w)")
  case None
  with assms(1) show ?thesis by (simp add: serveManaged_def)
next
  case (Some x)
  obtain buf left where r: "ReadFull 8 (pw_stream w) = Some (buf, left)"
    using Some by (cases x) simp
  show ?thesis
  proof (cases "buf = sslStart")
    case True
    with assms(1) r obtain st t where st: "pw_tls_stream w = Some st"
      and m: "managed_startup px p i w (readStartupMessage st) = (t, Some rest)"
      and tr: "tr = tls_prelude p True @ t"
      by (auto simp: serveManaged_def outcome_iffs tls_prelude_def split: option.splits)
    from managed_startup_Some [OF m assms(2)] obtain raw ses c bs where
      "readStartupMessage st = Inr (raw, rest)" and res: "pw_connect w c = Inr ses" "ps_sync_ok ses"
      "ps_hijack_ok ses" "handshake_of px ses bs"
      "t = [UpstreamConnect c, WriteClient bs, Splice, CloseUpstream]" by blast
    with st True client_opening(1) [OF r, of raw rest] have "client_sends w True raw rest" by blast
    with res tr show ?thesis by blast
  next
    case False
    with assms(1) r have pl: "isPlaintextStartup buf"
      and m: "managed_startup px p i w (readStartupMessageWithPrefix left buf) = (tr, Some rest)"
      by (auto simp: serveManaged_def split: if_splits)
    from managed_startup_Some [OF m assms(2)] obtain raw ses c bs where
      "readStartupMessageWithPrefix left buf = Inr (raw, rest)" and res: "pw_connect w c = Inr ses"
      "ps_sync_ok ses" "ps_hijack_ok ses" "handshake_of px ses bs"
      "tr = [UpstreamConnect c, WriteClient bs, Splice, CloseUpstream]" by blast
    with pl client_opening(2) [OF r, of raw rest] have "client_sends w False raw rest" by blast
    moreover have "tr = tls_prelude p False @ [UpstreamConnect c, WriteClient bs, Splice, CloseUpstream]"
      using res(5) by (simp add: tls_prelude_def)
    ultimately show ?thesis using res by blast
  qed
qed

subsection \<open>A session, worked out\<close>

lemma demo_distinct:
  "\<forall>c ses. pw_connect demo_pg_world c = Inr ses \<longrightarrow> distinct (map fst (ps_ParameterStatuses ses))"
  by (auto simp: demo_pg_world_def split: if_splits)

theorem serveManaged_handshake_witness:
  "\<exists>tr bs. serveManaged demo_px (demo_proxy ''app'') demo_identity demo_pg_world = (tr, Some ''Q'')
     \<and> WriteClient bs \<in> set tr
     \<and> (\<exists>c. handshake_of demo_px (projr (pw_connect demo_pg_world c)) bs)"
proof -
  have "snd (serveManaged demo_px (demo_proxy ''app'') demo_identity demo_pg_world) = Some ''Q''"
    by code_simp
  then obtain tr where s: "serveManaged demo_px (demo_proxy ''app'') demo_identity demo_pg_world
      = (tr, Some ''Q'')"
    by (metis prod.collapse)
  from serveManaged_handshake [OF s demo_distinct] obtain tls ses c bs where
    "pw_connect demo_pg_world c = Inr ses" "handshake_of demo_px ses bs"
    "tr = tls_prelude (demo_proxy ''app'') tls @ [UpstreamConnect c, WriteClient bs, Splice, CloseUpstream]"
    by blast
  with s show ?thesis by (intro exI [of _ tr] exI [of _ bs]) (auto intro!: exI [of _ c])
qed

text \<open>An upstream that refuses every password alike, with an error text pgconn would give.\<close>

definition refusing_world :: pg_world where
  "refusing_world = demo_pg_world\<lparr>pw_connect := (\<lambda>cfg. Inl (''failed to connect to user='' @ cc_User cfg))\<rparr>"

theorem password_never_visible_witness:
  "client_view (fst (fst (pg_serve demo_px (with_password ''other'' (demo_proxy ''app'')) demo_pg_flags
      refusing_world empty_caches)))
    = client_view (fst (fst (pg_serve demo_px (demo_proxy ''app'') demo_pg_flags
      refusing_world empty_caches)))"
proof -
  have "same_answers ''other'' (demo_proxy ''app'') refusing_world"
    by (simp add: same_answers_def refusing_world_def)
  from password_never_visible [OF this, of demo_px demo_pg_flags empty_caches] show ?thesis by blast
qed



end
