(* ===== verification/PgEndToEnd.thy ===== *)
theory PgEndToEnd
  imports PgManaged
begin

text \<open>
  Whole Postgres sessions: from the address of a connection over the identity, the startup
  message and the upstream handshake to the bytes the splice moves, in both modes.
\<close>

subsection \<open>What the upstream is told\<close>

text \<open>The bytes written to the upstream once TLS is up.\<close>

fun written :: "trace \<Rightarrow> bytes" where
  "written [] = []"
| "written (WriteUpstream bs # tr) = bs @ written tr"
| "written (_ # tr) = written tr"

fun tls_bytes :: "trace \<Rightarrow> bytes" where
  "tls_bytes [] = []"
| "tls_bytes (TLSUpstream n # tr) = written tr"
| "tls_bytes (_ # tr) = tls_bytes tr"

text \<open>The runtime parameters the upstream gets: in a passthrough session those of the startup
  message it is sent, in a managed one those the proxy connects with.\<close>

fun upstream_params :: "trace \<Rightarrow> (string \<Rightarrow> string option) option" where
  "upstream_params [] = None"
| "upstream_params (WriteUpstream bs # tr) =
     (if bs = sslStart then upstream_params tr
      else case parseStartupParams bs of Inl e \<Rightarrow> None | Inr q \<Rightarrow> Some q)"
| "upstream_params (UpstreamConnect c # tr) = Some (cc_RuntimeParams c)"
| "upstream_params (_ # tr) = upstream_params tr"

lemma upstream_params_errors:
  "\<forall>e \<in> set tr. \<exists>k. e = ErrorAdd k \<Longrightarrow> upstream_params (tr @ tr') = upstream_params tr'"
  "\<forall>e \<in> set tr. \<exists>k. e = ErrorAdd k \<Longrightarrow> tls_bytes (tr @ tr') = tls_bytes tr'"
  by (induction tr) auto

lemma tls_prelude_skip [simp]:
  "upstream_params (tls_prelude p tls @ tr) = upstream_params tr"
  "written (tls_prelude p tls @ tr) = written tr"
  by (simp_all add: tls_prelude_def)

subsection \<open>The client's startup message is unique\<close>

lemma client_sends_unique:
  assumes "client_sends w tls raw rest" "client_sends w tls' raw' rest'"
  shows "tls' = tls \<and> raw' = raw \<and> rest' = rest"
proof -
  from client_sends_opening [OF assms(1)] obtain buf left
    where r: "ReadFull 8 (pw_stream w) = Some (buf, left)" by blast
  show ?thesis
    using assms client_opening [OF r] not_plaintext_sslStart
    by (cases tls; cases tls') auto
qed

subsection \<open>Sessions that reach the splice\<close>

lemma pg_serve_Some:
  assumes "pg_serve px p fl w s = ((tr, Some rest), s')"
  shows "\<exists>es i body. identifyClient fl (pw_ident w) (pw_remote w) s = (es, Some i, s')
    \<and> (\<forall>e \<in> set es. \<exists>k. e = ErrorAdd k) \<and> tr = es @ body @ [CloseClient]
    \<and> (if managed (pcfg p) then serveManaged px p i w else serve_passthrough p i w)
        = (body, Some rest)"
proof -
  obtain es oi s0 where i: "identifyClient fl (pw_ident w) (pw_remote w) s = (es, oi, s0)"
    by (metis surj_pair)
  with assms obtain idn where oi: "oi = Some idn" by (cases oi) (auto simp: pg_serve_def)
  let ?run = "if managed (pcfg p) then serveManaged px p idn w else serve_passthrough p idn w"
  obtain body r where run: "?run = (body, r)" by (cases ?run)
  from assms i oi run have "tr = es @ body @ [CloseClient]" "r = Some rest" "s0 = s'"
    by (auto simp: pg_serve_def)
  with i oi run identifyClient_class [OF i] show ?thesis by auto
qed

lemma managed_startup_reaches:
  assumes "managed_startup px p i w msg = (tr, Some rest)"
  shows "\<exists>raw params c trh. msg = Inr (raw, rest) \<and> parseStartupParams raw = Inr params
    \<and> cc_RuntimeParams c = runtime_params params
        (finalAppName (get_str params app_key) (id_appName i) (id_fromTS i))
    \<and> tr = UpstreamConnect c # trh"
  using assms
  by (auto simp: managed_startup_def Let_def outcome_iffs
      split: sum.splits if_splits prod.splits)

lemma serveManaged_reaches:
  assumes "serveManaged px p i w = (tr, Some rest)"
  shows "\<exists>tls raw params c trh. client_sends w tls raw rest \<and> parseStartupParams raw = Inr params
    \<and> cc_RuntimeParams c = runtime_params params
        (finalAppName (get_str params app_key) (id_appName i) (id_fromTS i))
    \<and> tr = tls_prelude p tls @ UpstreamConnect c # trh"
proof (cases "ReadFull 8 (pw_stream w)")
  case None
  with assms show ?thesis by (simp add: serveManaged_def)
next
  case (Some x)
  obtain buf left where r: "ReadFull 8 (pw_stream w) = Some (buf, left)"
    using Some by (cases x) simp
  show ?thesis
  proof (cases "buf = sslStart")
    case True
    with assms r obtain st t where st: "pw_tls_stream w = Some st"
      and m: "managed_startup px p i w (readStartupMessage st) = (t, Some rest)"
      and tr: "tr = tls_prelude p True @ t"
      by (auto simp: serveManaged_def outcome_iffs tls_prelude_def split: option.splits)
    from managed_startup_reaches [OF m] client_opening(1) [OF r] st True tr show ?thesis by blast
  next
    case False
    with assms r have pl: "isPlaintextStartup buf"
      and m: "managed_startup px p i w (readStartupMessageWithPrefix left buf) = (tr, Some rest)"
      by (auto simp: serveManaged_def split: if_splits)
    have "tr = tls_prelude p False @ tr" by (simp add: tls_prelude_def)
    with managed_startup_reaches [OF m] client_opening(2) [OF r] pl show ?thesis by metis
  qed
qed

subsection \<open>Attribution, end to end\<close>

lemma parse_not_sslStart: "parseStartupParams raw = Inr q \<Longrightarrow> raw \<noteq> sslStart"
  by (auto simp: parseStartupParams_def length_sslStart)

lemma runtime_params_attributed:
  assumes "ident \<noteq> []"
  shows "runtime_params params (finalAppName (get_str params app_key) ident ts) app_key
      = Some (attributed ident ts (params app_key))"
    and "k \<notin> {app_key, ''user'', ''database'', ''replication''} \<Longrightarrow>
      runtime_params params name k = params k"
  using assms
  by (auto simp: runtime_params_def finalAppName_def get_str_def attributed_def Let_def
      split: option.splits)

text \<open>C7: both modes attribute alike: after any history of connections, a session of either mode
  that reaches the splice has told its upstream, for the application name, the client's name
  completed by the attribution rule with an identity that is never empty, and for every other
  parameter but user, database and replication what the client sent. This needs a startup
  message of protocol version 3 whose parameters have distinct names (a repeated application
  name evades the passthrough mode), and an identity without NUL bytes and shorter than 4 GB,
  since it is written into the message as it is.\<close>

theorem session_attributed:
  assumes "pg_serve px p fl w (caches_after fl cs) = ((tr, Some rest), s')"
    and "client_sends w tls raw rest" "parseStartupParams raw = Inr params"
    and "startup_pairs (drop 8 (butlast raw)) = Inr kvs" "distinct (map fst kvs)"
    and "identifyClient fl (pw_ident w) (pw_remote w) (caches_after fl cs) = (es, Some i, s'')"
    and "nul \<notin> set (id_appName i)" "length (id_appName i) < 4000000000"
  shows "id_appName i \<noteq> [] \<and> (\<exists>q. upstream_params tr = Some q
    \<and> q app_key = Some (attributed (id_appName i) (id_fromTS i) (params app_key))
    \<and> (\<forall>k. k \<notin> {app_key, ''user'', ''database'', ''replication''} \<longrightarrow> q k = params k))"
proof -
  from pg_serve_Some [OF assms(1)] assms(6) obtain body where
    es: "\<forall>e \<in> set es. \<exists>k. e = ErrorAdd k" and tr: "tr = es @ body @ [CloseClient]"
    and run: "(if managed (pcfg p) then serveManaged px p i w else serve_passthrough p i w)
      = (body, Some rest)"
    by auto
  have ident: "id_appName i \<noteq> []"
    using identifyClient_named(2) [OF caches_after_named, of fl "pw_ident w" "pw_remote w" fl cs i]
      assms(6) by simp
  have framed: "length raw \<le> 65536"
    using assms(2) by (auto simp: client_sends_def framed_def split: if_splits)
  show ?thesis
  proof (cases "managed (pcfg p)")
    case True
    with run obtain tls' raw' params' c trh where r: "client_sends w tls' raw' rest"
      "parseStartupParams raw' = Inr params'"
      "cc_RuntimeParams c = runtime_params params'
        (finalAppName (get_str params' app_key) (id_appName i) (id_fromTS i))"
      "body = tls_prelude p tls' @ UpstreamConnect c # trh"
      using serveManaged_reaches [of px p i w body rest] by auto
    with client_sends_unique [OF assms(2) r(1)] assms(3) have "params' = params" by simp
    with r tr es have "upstream_params tr = Some (runtime_params params
        (finalAppName (get_str params app_key) (id_appName i) (id_fromTS i)))"
      by (simp add: upstream_params_errors)
    with ident show ?thesis by (simp add: runtime_params_attributed)
  next
    case False
    with run obtain raw' out where r: "client_sends w True raw' rest"
      "rewriteStartup raw' (id_appName i) (id_fromTS i) = Inr out"
      "body = [DialTCP (upstreamAddr p), WriteUpstream sslStart, TLSUpstream (upstreamHost p)]
             @ tls_prelude p True @ [WriteUpstream out, Splice, CloseUpstream]"
      unfolding if_not_P [OF False] serve_passthrough_iff by blast
    with client_sends_unique [OF assms(2) r(1)] have "raw' = raw" by simp
    with r(2) rewriteStartup_attributes [OF assms(3) ident assms(7) _ assms(4,5), of "id_fromTS i"]
      framed assms(8)
    obtain q where q: "parseStartupParams out = Inr q"
      "q app_key = Some (attributed (id_appName i) (id_fromTS i) (params app_key))"
      "\<forall>k. k \<noteq> app_key \<longrightarrow> q k = params k" by auto
    with r tr es parse_not_sslStart [OF q(1)] have "upstream_params tr = Some q"
      by (simp add: upstream_params_errors)
    with q ident show ?thesis by auto
  qed
qed

text \<open>C6: a passthrough session is the client's own session but for the attributed startup message:
  at every moment of the splice, the bytes the upstream has received inside its verified TLS
  are a prefix of the rewritten startup message followed by the rest of what the client sends,
  the client has received a prefix of what the upstream sends, and a session that ends without
  an error delivered one of the two completely.\<close>

theorem session_end_to_end:
  assumes "pg_serve px p fl w s = ((tr, Some rest), s')" "\<not> managed (pcfg p)"
    and "splice_reach pg_errc_cap rest ce u ue st"
  shows "\<exists>i raw out. fst (snd (identifyClient fl (pw_ident w) (pw_remote w) s)) = Some i
    \<and> client_sends w True raw rest
    \<and> rewriteStartup raw (id_appName i) (id_fromTS i) = Inr out
    \<and> prefix (tls_bytes tr @ to_upstream st) (out @ rest) \<and> prefix out (tls_bytes tr)
    \<and> prefix (to_client st) u
    \<and> (first_result st = Some False \<longrightarrow>
        tls_bytes tr @ to_upstream st = out @ rest \<or> to_client st = u)"
proof -
  from pg_serve_Some [OF assms(1)] assms(2) obtain es i body where
    i: "identifyClient fl (pw_ident w) (pw_remote w) s = (es, Some i, s')"
    and es: "\<forall>e \<in> set es. \<exists>k. e = ErrorAdd k" and tr: "tr = es @ body @ [CloseClient]"
    and run: "serve_passthrough p i w = (body, Some rest)"
    by auto
  from run obtain raw out where r: "client_sends w True raw rest"
    "rewriteStartup raw (id_appName i) (id_fromTS i) = Inr out"
    "body = [DialTCP (upstreamAddr p), WriteUpstream sslStart, TLSUpstream (upstreamHost p)]
           @ tls_prelude p True @ [WriteUpstream out, Splice, CloseUpstream]"
    unfolding serve_passthrough_iff by blast
  with tr es have "tls_bytes tr = out" by (simp add: upstream_params_errors)
  with splice_pipe [OF assms(3)] i r(1,2) show ?thesis
    by (intro exI [of _ i] exI [of _ raw] exI [of _ out]) auto
qed

subsection \<open>A session, worked out\<close>

abbreviation demo_ident :: identity where
  "demo_ident \<equiv> \<lparr>id_user = ''fra.billing'', id_machine = ''fly'', id_appName = ''fra.billing'',
     id_fromTS = False\<rparr>"

lemma demo_runs:
  "snd (fst (pg_serve demo_px (demo_proxy []) demo_pg_flags demo_tls_world empty_caches)) = Some ''Q''"
  "snd (fst (pg_serve demo_px (demo_proxy ''app'') demo_pg_flags demo_pg_world empty_caches)) = Some ''Q''"
  "fst (snd (identifyClient demo_pg_flags (pw_ident demo_pg_world) (pw_remote demo_pg_world)
      empty_caches)) = Some demo_ident"
  by (code_simp, code_simp, code_simp)

lemma demo_caches: "caches_after demo_pg_flags [] = empty_caches"
  by (simp add: caches_after_def)

abbreviation demo_params :: "(string \<times> string) list" where
  "demo_params \<equiv> [(''user'', ''joe''), (''database'', ''joe''), (''replication'', ''1''),
     (app_key, ''psql''), (''TimeZone'', ''UTC'')]"

lemma demo_startup_facts:
  "pairs_ok demo_params" "fits32 demo_params" "client_sends demo_pg_world False demo_startup ''Q''"
  "client_sends demo_tls_world True demo_startup ''Q''"
proof -
  show "pairs_ok demo_params" "fits32 demo_params"
    by (simp_all add: pair_ok_def fits32_def length_encode_startup)
  show "client_sends demo_pg_world False demo_startup ''Q''"
    "client_sends demo_tls_world True demo_startup ''Q''" by (code_simp, code_simp)
qed

theorem session_attributed_witness:
  "(\<exists>tr s' q. pg_serve demo_px (demo_proxy ''app'') demo_pg_flags demo_pg_world
      (caches_after demo_pg_flags []) = ((tr, Some ''Q''), s')
    \<and> upstream_params tr = Some q \<and> q app_key = Some ''psql'' \<and> q ''TimeZone'' = Some ''UTC'')
   \<and> (\<exists>tr s' q. pg_serve demo_px (demo_proxy []) demo_pg_flags demo_tls_world
      (caches_after demo_pg_flags []) = ((tr, Some ''Q''), s')
    \<and> upstream_params tr = Some q \<and> q app_key = Some ''psql'' \<and> q ''TimeZone'' = Some ''UTC'')"
proof -
  have parsed: "parseStartupParams demo_startup = Inr (map_of (rev demo_params))"
    "startup_pairs (drop 8 (butlast demo_startup)) = Inr demo_params"
    unfolding demo_startup_def
    using parseStartupParams_encode [OF demo_startup_facts(1,2)]
      startup_pairs_encode [OF demo_startup_facts(1)] body_encode [of demo_params]
    by (simp_all add: butlast_conv_take)
  have h: "distinct (map fst demo_params)" "nul \<notin> set (id_appName demo_ident)"
    "length (id_appName demo_ident) < 4000000000"
    by simp_all
  have name: "attributed (id_appName demo_ident) (id_fromTS demo_ident)
      (map_of (rev demo_params) app_key) = ''psql''" by code_simp
  have w: "\<exists>tr s' q. pg_serve demo_px (demo_proxy role) demo_pg_flags w
      (caches_after demo_pg_flags []) = ((tr, Some ''Q''), s')
    \<and> upstream_params tr = Some q \<and> q app_key = Some ''psql'' \<and> q ''TimeZone'' = Some ''UTC''"
    if run: "snd (fst (pg_serve demo_px (demo_proxy role) demo_pg_flags w empty_caches)) = Some ''Q''"
      and same: "pw_ident w = pw_ident demo_pg_world" "pw_remote w = pw_remote demo_pg_world"
      and sends: "client_sends w tls demo_startup ''Q''" for role w tls
  proof -
    obtain tr s' where r: "pg_serve demo_px (demo_proxy role) demo_pg_flags w
        (caches_after demo_pg_flags []) = ((tr, Some ''Q''), s')"
      using run by (metis demo_caches prod.collapse)
    obtain es s'' where i: "identifyClient demo_pg_flags (pw_ident w) (pw_remote w)
        (caches_after demo_pg_flags []) = (es, Some demo_ident, s'')"
      using demo_runs(3) same by (metis demo_caches prod.collapse)
    from session_attributed [OF r sends parsed h(1) i h(2,3)] obtain q where q:
      "upstream_params tr = Some q"
      "q app_key = Some (attributed (id_appName demo_ident) (id_fromTS demo_ident)
        (map_of (rev demo_params) app_key))"
      "\<forall>k. k \<notin> {app_key, ''user'', ''database'', ''replication''} \<longrightarrow> q k = map_of (rev demo_params) k"
      by blast
    have "q ''TimeZone'' = map_of (rev demo_params) ''TimeZone''" using q(3) by simp
    then have "q ''TimeZone'' = Some ''UTC''" by simp
    then show ?thesis using r q name by metis
  qed
  have tls: "pw_ident demo_tls_world = pw_ident demo_pg_world"
    "pw_remote demo_tls_world = pw_remote demo_pg_world" by (simp_all add: demo_tls_world_def)
  from w [OF demo_runs(2) refl refl demo_startup_facts(3)]
    w [OF demo_runs(1) tls demo_startup_facts(4)]
  show ?thesis by (rule conjI)
qed

theorem session_end_to_end_witness:
  "\<exists>tr s' (i :: identity) raw out. pg_serve demo_px (demo_proxy []) demo_pg_flags demo_tls_world empty_caches
      = ((tr, Some ''Q''), s')
    \<and> rewriteStartup raw (id_appName i) (id_fromTS i) = Inr out \<and> prefix (tls_bytes tr) (out @ ''Q'')"
proof -
  obtain tr s' where run: "pg_serve demo_px (demo_proxy []) demo_pg_flags demo_tls_world empty_caches
      = ((tr, Some ''Q''), s')"
    using demo_runs(1) by (metis prod.collapse)
  have "\<not> managed (pcfg (demo_proxy []))" by code_simp
  from session_end_to_end [OF run this splice_reach.init, of Eof "''x''" Idle] obtain i :: identity and raw out where
    "rewriteStartup raw (id_appName i) (id_fromTS i) = Inr out"
    "prefix (tls_bytes tr @ to_upstream (splice_init ''Q'' Eof ''x'' Idle)) (out @ ''Q'')"
    by blast
  moreover have "to_upstream (splice_init ''Q'' Eof ''x'' Idle) = []" by (simp add: splice_init_def)
  ultimately show ?thesis using run by (metis append_Nil2)
qed

end
