(* ===== verification/Expvar.thy ===== *)
theory Expvar
  imports TcpProxy HttpProxy PgSessions
begin

text \<open>
  What the proxies publish over expvar (the \<^verbatim>\<open>Expvar\<close> methods of \<^verbatim>\<open>src/tcpproxy.go\<close>,
  \<^verbatim>\<open>src/httpproxy.go\<close> and \<^verbatim>\<open>src/pgproxy.go\<close>), and what a reader of the page can
  conclude from it. A published map holds live variables, so its value is read from the counters
  at the time of the request; \<open>metrics\<close> are the counters of one proxy. The locale
  \<open>accounted_handler\<close> says what one connection adds to them in total.
\<close>

datatype expvar = ExpInt int | ExpMap "string \<Rightarrow> expvar option"

text \<open>An \<^verbatim>\<open>expvar.Map\<close> of counters has the keys that were ever added to.\<close>

definition errors_var :: "(string \<Rightarrow> nat) \<Rightarrow> expvar" where
  "errors_var n = ExpMap (\<lambda>k. if n k = 0 then None else Some (ExpInt (int (n k))))"

record tcpProxy =
  tp_cfg :: tcpTarget
  tp_metrics :: metrics

record httpProxy =
  hp_metrics :: metrics

definition newTCPProxy :: "tcpTarget \<Rightarrow> tcpProxy" where
  "newTCPProxy cfg = \<lparr>tp_cfg = cfg, tp_metrics = zero_metrics\<rparr>"

definition newHTTPProxy :: httpProxy where
  "newHTTPProxy = \<lparr>hp_metrics = zero_metrics\<rparr>"

definition tcpProxy_Expvar :: "tcpProxy \<Rightarrow> expvar" where
  "tcpProxy_Expvar t = ExpMap
     [''sessions_active'' \<mapsto> ExpInt (activeSessions (tp_metrics t)),
      ''sessions_started'' \<mapsto> ExpInt (int (startedSessions (tp_metrics t))),
      ''session_errors'' \<mapsto> errors_var (errors (tp_metrics t))]"

definition httpProxy_Expvar :: "httpProxy \<Rightarrow> expvar" where
  "httpProxy_Expvar h = ExpMap
     [''sessions_active'' \<mapsto> ExpInt (activeSessions (hp_metrics h)),
      ''sessions_started'' \<mapsto> ExpInt (int (startedSessions (hp_metrics h))),
      ''session_errors'' \<mapsto> errors_var (errors (hp_metrics h))]"

text \<open>The counters of a Postgres proxy are fields of the proxy; \<open>m\<close> holds them.\<close>

definition proxy_Expvar :: "metrics \<Rightarrow> expvar" where
  "proxy_Expvar m = ExpMap
     [''sessions_active'' \<mapsto> ExpInt (activeSessions m),
      ''sessions_started'' \<mapsto> ExpInt (int (startedSessions m)),
      ''session_errors'' \<mapsto> errors_var (errors m)]"

text \<open>A proxy that has counted \<open>m\<close>.\<close>

definition counted_tcp :: "tcpTarget \<Rightarrow> metrics \<Rightarrow> tcpProxy" where
  "counted_tcp cfg m = (newTCPProxy cfg)\<lparr>tp_metrics := m\<rparr>"

definition counted_http :: "metrics \<Rightarrow> httpProxy" where
  "counted_http m = newHTTPProxy\<lparr>hp_metrics := m\<rparr>"

subsection \<open>The account of a connection\<close>

text \<open>A published map \<open>v\<close> accounts for a listener that has accepted connections from the worlds
  \<open>ws\<close>, whose handlers still have to do \<open>ss\<close>: the sessions shown as active are those open now,
  nothing is counted that did not happen, and once every handler has returned everything is
  counted.\<close>

definition accounts ::
  "expvar \<Rightarrow> ('w \<Rightarrow> bool) \<Rightarrow> ('w \<Rightarrow> string option) \<Rightarrow> 'w list \<Rightarrow> trace list \<Rightarrow> bool" where
  "accounts v served failure ws ss \<longleftrightarrow>
     (\<exists>n errs. v = ExpMap
        [''sessions_active'' \<mapsto> ExpInt (open_sessions ss),
         ''sessions_started'' \<mapsto> ExpInt (int n),
         ''session_errors'' \<mapsto> errors_var errs]
      \<and> n \<le> length (filter served ws)
      \<and> (\<forall>k. errs k \<le> length (filter (\<lambda>w. failure w = Some k) ws))
      \<and> (concat ss = [] \<longrightarrow> open_sessions ss = 0 \<and> n = length (filter served ws)
          \<and> errs = (\<lambda>k. length (filter (\<lambda>w. failure w = Some k) ws))))"

locale accounted_handler = counted_handler handler
  for handler :: "'w \<Rightarrow> trace" +
  fixes served :: "'w \<Rightarrow> bool"
    and failure :: "'w \<Rightarrow> string option"
  assumes start: "starts (handler w) = (if served w then 1 else 0)"
    and fails: "error_keys (handler w) = (case failure w of None \<Rightarrow> [] | Some k \<Rightarrow> [k])"
begin

lemma sequential_account:
  "run_metrics (concat (map handler ws)) =
     \<lparr>activeSessions = 0, startedSessions = length (filter served ws),
      errors = (\<lambda>k. length (filter (\<lambda>w. failure w = Some k) ws))\<rparr>"
  unfolding run_metrics_eq
proof (induction ws)
  case (Cons w ws)
  then show ?case by (auto simp: balanced start fails fun_eq_iff split: option.split)
qed simp

text \<open>Once every handler has returned, the counters are the account of the connections,
  whatever the interleaving was.\<close>

lemma quiescent_account:
  assumes "server_run handler ws (ss, m)" "concat ss = []"
  shows "m = \<lparr>activeSessions = 0, startedSessions = length (filter served ws),
      errors = (\<lambda>k. length (filter (\<lambda>w. failure w = Some k) ws))\<rparr>"
  using run_sequential [OF assms(1)] assms(2) by (simp add: sequential_account)

text \<open>And at any moment nothing is counted that did not happen.\<close>

lemma counters_bounded:
  assumes "server_run handler ws (ss, m)"
  shows "startedSessions m \<le> length (filter served ws)"
    and "errors m k \<le> length (filter (\<lambda>w. failure w = Some k) ws)"
  using run_sequential [OF assms]
  by (simp_all add: sequential_account fold_count_event fun_eq_iff)
    (metis le_add1)+

lemma server_accounts:
  assumes "server_run handler ws (ss, m)"
    and "v = ExpMap [''sessions_active'' \<mapsto> ExpInt (activeSessions m),
      ''sessions_started'' \<mapsto> ExpInt (int (startedSessions m)),
      ''session_errors'' \<mapsto> errors_var (errors m)]"
  shows "accounts v served failure ws ss"
  unfolding accounts_def
proof (intro exI conjI)
  show "v = ExpMap [''sessions_active'' \<mapsto> ExpInt (open_sessions ss),
      ''sessions_started'' \<mapsto> ExpInt (int (startedSessions m)),
      ''session_errors'' \<mapsto> errors_var (errors m)]"
    by (simp add: assms(2) active_is_open [OF server_run_reach [OF assms(1)]])
  show "startedSessions m \<le> length (filter served ws)"
    "\<forall>k. errors m k \<le> length (filter (\<lambda>w. failure w = Some k) ws)"
    using counters_bounded [OF assms(1)] by blast+
  show "concat ss = [] \<longrightarrow> open_sessions ss = 0 \<and> startedSessions m = length (filter served ws)
      \<and> errors m = (\<lambda>k. length (filter (\<lambda>w. failure w = Some k) ws))"
  proof
    assume "concat ss = []"
    from quiescent_account [OF assms(1) this] active_is_open [OF server_run_reach [OF assms(1)]]
    show "open_sessions ss = 0 \<and> startedSessions m = length (filter served ws)
        \<and> errors m = (\<lambda>k. length (filter (\<lambda>w. failure w = Some k) ws))" by simp
  qed
qed

end

subsection \<open>The three proxies\<close>

text \<open>How a connection of each proxy ends, as its counters see it.\<close>

definition tcp_served :: "flags \<Rightarrow> tcp_world \<Rightarrow> bool" where
  "tcp_served fl w = (classifyPeer fl (tw_remote w) \<noteq> peerReject \<and> tw_dial_ok w)"

definition tcp_failure :: "flags \<Rightarrow> tcp_world \<Rightarrow> string option" where
  "tcp_failure fl w =
     (if classifyPeer fl (tw_remote w) = peerReject then Some ''disallowed-source''
      else if \<not> tw_dial_ok w then Some ''dial-failed''
      else if tw_copy_err w then Some ''network-error''
      else None)"

definition http_served :: "flags \<Rightarrow> http_world \<Rightarrow> bool" where
  "http_served fl w = (allowPeer fl (classifyPeer fl (hw_remote w)) \<and> hw_method w = ''CONNECT''
     \<and> hw_hijackable w \<and> hw_dial_ok w \<and> hw_hijack_ok w \<and> hw_write_ok w)"

definition http_failure :: "flags \<Rightarrow> http_world \<Rightarrow> string option" where
  "http_failure fl w =
     (if \<not> allowPeer fl (classifyPeer fl (hw_remote w)) then Some ''disallowed-source''
      else if hw_method w \<noteq> ''CONNECT'' then Some ''bad-method''
      else if \<not> hw_hijackable w then Some ''hijack-unsupported''
      else if \<not> hw_dial_ok w then Some ''dial-failed''
      else if \<not> hw_hijack_ok w then Some ''hijack-failed''
      else if \<not> hw_write_ok w then Some ''network-error''
      else None)"

interpretation tcp_account: accounted_handler "tcp_handle cfg fl" "tcp_served fl" "tcp_failure fl"
  for cfg fl
  by unfold_locales (auto simp: tcp_handle_def tcp_served_def tcp_failure_def setKeepAlive_def)

interpretation http_account: accounted_handler "ServeHTTP fl" "http_served fl" "http_failure fl"
  for fl
  by unfold_locales (auto simp: ServeHTTP_def http_served_def http_failure_def)

text \<open>What the debug page shows of one target after all its connections have ended.\<close>

theorem tcp_published_exact:
  assumes "server_run (tcp_handle cfg fl) ws (ss, m)" "concat ss = []"
  shows "tcpProxy_Expvar (counted_tcp cfg m) = ExpMap
     [''sessions_active'' \<mapsto> ExpInt 0,
      ''sessions_started'' \<mapsto> ExpInt (int (length (filter (tcp_served fl) ws))),
      ''session_errors'' \<mapsto> errors_var (\<lambda>k. length (filter (\<lambda>w. tcp_failure fl w = Some k) ws))]"
  using tcp_account.quiescent_account [OF assms]
  by (simp add: tcpProxy_Expvar_def counted_tcp_def newTCPProxy_def)

theorem tcp_published_exact_witness:
  "tcpProxy_Expvar (counted_tcp demo_target
      (run_metrics (concat (map (tcp_handle demo_target demo_tcp_flags)
        [demo_tcp_world, demo_tcp_world\<lparr>tw_remote := ''1.2.3.4:5''\<rparr>])))) = ExpMap
     [''sessions_active'' \<mapsto> ExpInt 0, ''sessions_started'' \<mapsto> ExpInt 1,
      ''session_errors'' \<mapsto> errors_var (\<lambda>k. if k = ''disallowed-source'' then 1 else 0)]"
proof -
  let ?ws = "[demo_tcp_world, demo_tcp_world\<lparr>tw_remote := ''1.2.3.4:5''\<rparr>]"
  have "tcp_served demo_tcp_flags demo_tcp_world"
    "\<not> tcp_served demo_tcp_flags (demo_tcp_world\<lparr>tw_remote := ''1.2.3.4:5''\<rparr>)"
    "tcp_failure demo_tcp_flags demo_tcp_world = None"
    "tcp_failure demo_tcp_flags (demo_tcp_world\<lparr>tw_remote := ''1.2.3.4:5''\<rparr>) = Some ''disallowed-source''"
    by (code_simp, code_simp, code_simp, code_simp)
  then have "filter (tcp_served demo_tcp_flags) ?ws = [demo_tcp_world]"
    "(\<lambda>k. length (filter (\<lambda>w. tcp_failure demo_tcp_flags w = Some k) ?ws))
       = (\<lambda>k. if k = ''disallowed-source'' then 1 else 0)"
    by (simp_all only: fun_eq_iff) auto
  with tcp_published_exact [OF run_one_by_one [of "tcp_handle demo_target demo_tcp_flags" ?ws]]
  show ?thesis by (simp only:) simp
qed

text \<open>What the debug page shows of the CONNECT proxy after all its requests have ended.\<close>

theorem http_published_exact:
  assumes "server_run (ServeHTTP fl) ws (ss, m)" "concat ss = []"
  shows "httpProxy_Expvar (counted_http m) = ExpMap
     [''sessions_active'' \<mapsto> ExpInt 0,
      ''sessions_started'' \<mapsto> ExpInt (int (length (filter (http_served fl) ws))),
      ''session_errors'' \<mapsto> errors_var (\<lambda>k. length (filter (\<lambda>w. http_failure fl w = Some k) ws))]"
  using http_account.quiescent_account [OF assms]
  by (simp add: httpProxy_Expvar_def counted_http_def newHTTPProxy_def)

theorem http_published_exact_witness:
  "httpProxy_Expvar (counted_http (run_metrics (concat (map (ServeHTTP demo_flags)
        [demo_request, demo_request\<lparr>hw_method := ''GET''\<rparr>])))) = ExpMap
     [''sessions_active'' \<mapsto> ExpInt 0, ''sessions_started'' \<mapsto> ExpInt 1,
      ''session_errors'' \<mapsto> errors_var (\<lambda>k. if k = ''bad-method'' then 1 else 0)]"
proof -
  let ?ws = "[demo_request, demo_request\<lparr>hw_method := ''GET''\<rparr>]"
  have "http_served demo_flags demo_request"
    "\<not> http_served demo_flags (demo_request\<lparr>hw_method := ''GET''\<rparr>)"
    "http_failure demo_flags demo_request = None"
    "http_failure demo_flags (demo_request\<lparr>hw_method := ''GET''\<rparr>) = Some ''bad-method''"
    by (code_simp, code_simp, code_simp, code_simp)
  then have "filter (http_served demo_flags) ?ws = [demo_request]"
    "(\<lambda>k. length (filter (\<lambda>w. http_failure demo_flags w = Some k) ?ws))
       = (\<lambda>k. if k = ''bad-method'' then 1 else 0)"
    by (simp_all only: fun_eq_iff) auto
  with http_published_exact [OF run_one_by_one [of "ServeHTTP demo_flags" ?ws]]
  show ?thesis by (simp only:) simp
qed

text \<open>The page says nothing about the Postgres sessions: at every moment, under every
  interleaving, a Postgres proxy publishes 0 sessions, running and started, whatever it
  serves; only its errors are counted, and never more of them than its connections made.\<close>

theorem pg_published_sessions:
  assumes "server_run (pg_handler px p fl) ws (ss, m)"
  shows "proxy_Expvar m = ExpMap
     [''sessions_active'' \<mapsto> ExpInt 0, ''sessions_started'' \<mapsto> ExpInt 0,
      ''session_errors'' \<mapsto> errors_var (errors m)]
    \<and> errors m k \<le> count_list (error_keys (concat (map (pg_handler px p fl) ws))) k"
proof -
  have "(\<forall>tr \<in> set (fst s). \<forall>e \<in> set tr. e \<noteq> StartedAdd \<and> active_delta e = 0)
      \<and> activeSessions (snd s) = 0 \<and> startedSessions (snd s) = 0"
    if "server_run (pg_handler px p fl) ws s" for s
    using that
  proof (induction rule: server_run.induct)
    case (run_accept ws ss m w)
    then show ?case by (auto simp: pg_handler_def dest!: pg_serve_inert)
  next
    case (run_session ws xs e tr ys m)
    then show ?case by (cases e) auto
  qed (simp add: zero_metrics_def)
  from this [OF assms] have "activeSessions m = 0" "startedSessions m = 0" by simp_all
  moreover have "errors m k \<le> count_list (error_keys (concat (map (pg_handler px p fl) ws))) k"
    using run_sequential [OF assms]
    by (simp add: run_metrics_eq fold_count_event fun_eq_iff) (metis le_add1)
  ultimately show ?thesis by (simp add: proxy_Expvar_def)
qed

end
