(* ===== verification/Bootstrap.thy ===== *)
theory Bootstrap
  imports PgProxy Ports Dns
begin

text \<open>
  Startup (\<^verbatim>\<open>main\<close> of \<^verbatim>\<open>src/pgproxy.go\<close>, \<^verbatim>\<open>runProxies\<close> of
  \<^verbatim>\<open>src/fly.go\<close>, \<^verbatim>\<open>startDNSForwarder\<close> of \<^verbatim>\<open>src/dns.go\<close>): the events of
  a start in order, up to the end or the first fatal error. \<open>Bind\<close> is a successful bind,
  \<open>Publish\<close> the registration of an expvar, a \<open>Serve\<close> event the goroutine that serves a bound
  listener. Log lines are left out.
\<close>

datatype boot =
    Fatal string
  | Bind string string
  | Publish string
  | ServeDebug
  | ServePg proxy
  | ServeTCP tcpTarget
  | RegisterDevPage "upstreamConfig list" "tcpTarget list"
  | ServeConnect
  | ServeDNSUDP string
  | ServeDNSTCP string

text \<open>\<open>bind_ok network address\<close> tells whether a bind succeeds.\<close>

record boot_env =
  bt_crypto :: crypto
  bt_lower :: "string \<Rightarrow> string"
  bind_ok :: "string \<Rightarrow> string \<Rightarrow> bool"

text \<open>A part of the start: its events, and whether the process is still running.\<close>

type_synonym start = "boot list \<times> bool"

definition andThen :: "start \<Rightarrow> start \<Rightarrow> start" where
  "andThen a b = (if snd a then (fst a @ fst b, snd b) else a)"

fun run_all :: "('a \<Rightarrow> start) \<Rightarrow> 'a list \<Rightarrow> start" where
  "run_all f [] = ([], True)"
| "run_all f (x # xs) = andThen (f x) (run_all f xs)"

definition listen :: "boot_env \<Rightarrow> string \<Rightarrow> string \<Rightarrow> boot \<Rightarrow> start" where
  "listen e network addr serve =
     (if bind_ok e network addr then ([Bind network addr, serve], True)
      else ([Fatal ''listen''], False))"

definition fly_addr :: "flags \<Rightarrow> int \<Rightarrow> string" where
  "fly_addr fl n = JoinHostPort (Trim (flyListenHost fl) ''[]'') (Itoa n)"

definition start_pg :: "boot_env \<Rightarrow> flags \<Rightarrow> upstreamConfig \<Rightarrow> start" where
  "start_pg e fl u =
     (case newProxy (bt_crypto e) (u_Target u) (upstreamCA fl) of
        Inl err \<Rightarrow> ([Fatal ''db''], False)
      | Inr p \<Rightarrow>
          andThen ([Publish (''pgproxy_'' @ u_Name u)], True)
            (if flyListenHost fl \<noteq> []
             then listen e ''tcp'' (fly_addr fl (u_Listen u)) (ServePg (p\<lparr>pcfg := u\<rparr>))
             else ([], True)))"

definition start_tcp :: "boot_env \<Rightarrow> flags \<Rightarrow> tcpTarget \<Rightarrow> start" where
  "start_tcp e fl t =
     andThen ([Publish (''tcp_'' @ t_Name t)], True)
       (if flyListenHost fl \<noteq> []
        then listen e ''tcp'' (fly_addr fl (t_Listen t)) (ServeTCP t)
        else ([], True))"

definition start_connect :: "boot_env \<Rightarrow> flags \<Rightarrow> start" where
  "start_connect e fl =
     (if httpProxyListen fl \<noteq> []
      then andThen ([Publish ''http_proxy''], True)
             (listen e ''tcp'' (httpProxyListen fl) ServeConnect)
      else ([], True))"

definition startDNSForwarder :: "boot_env \<Rightarrow> flags \<Rightarrow> start" where
  "startDNSForwarder e fl =
     (case dns_start (bt_lower e) fl of
        None \<Rightarrow> ([], True)
      | Some (resolver, st) \<Rightarrow>
          andThen (listen e ''udp'' dnsListen (ServeDNSUDP resolver))
            (listen e ''tcp'' dnsListen (ServeDNSTCP resolver)))"

lemmas start_defs = start_pg_def start_tcp_def start_connect_def startDNSForwarder_def listen_def

definition parseDestinationPgDbs :: "flags \<Rightarrow> cfgError + upstreamConfig list" where
  "parseDestinationPgDbs fl = parseDestinationPgDbsJSON (destinationPgDbs fl)"

definition parseDestinationTCPTargets :: "flags \<Rightarrow> cfgError + tcpTarget list" where
  "parseDestinationTCPTargets fl = parseDestinationTCPTargetsJSON (destinationTCPTargets fl)"

definition runProxies :: "boot_env \<Rightarrow> flags \<Rightarrow> bool \<Rightarrow> start" where
  "runProxies e fl debugMux =
     (case parseDestinationPgDbs fl of
        Inl err \<Rightarrow> ([Fatal ''--destination-pg-dbs''], False)
      | Inr cfgs \<Rightarrow>
          (case parseDestinationTCPTargets fl of
             Inl err \<Rightarrow> ([Fatal ''--destination-tcp-targets''], False)
           | Inr tcpCfgs \<Rightarrow>
               (case validateListenPorts cfgs tcpCfgs (httpProxyListen fl) (debugPort fl) of
                  Inl err \<Rightarrow> ([Fatal ''listen ports''], False)
                | Inr _ \<Rightarrow>
                    andThen (run_all (start_pg e fl) cfgs)
                    (andThen (run_all (start_tcp e fl) tcpCfgs)
                    (andThen (if debugMux then ([RegisterDevPage cfgs tcpCfgs], True) else ([], True))
                    (andThen (start_connect e fl) (startDNSForwarder e fl)))))))"

definition debug_addr :: "flags \<Rightarrow> string" where
  "debug_addr fl = '':'' @ Itoa (debugPort fl)"

definition gateway_main :: "boot_env \<Rightarrow> flags \<Rightarrow> start" where
  "gateway_main e fl =
     (if upstreamCA fl = [] then ([Fatal ''missing --upstream-ca-file''], False)
      else
        andThen (if debugPort fl \<noteq> 0 then listen e ''tcp'' (debug_addr fl) ServeDebug else ([], True))
          (runProxies e fl (debugPort fl \<noteq> 0)))"

subsection \<open>What a start publishes and binds\<close>

definition published :: "boot list \<Rightarrow> string list" where
  "published tr = List.map_filter (\<lambda>b. case b of Publish n \<Rightarrow> Some n | _ \<Rightarrow> None) tr"

definition tcp_binds :: "boot list \<Rightarrow> string list" where
  "tcp_binds tr =
     List.map_filter (\<lambda>b. case b of Bind network a \<Rightarrow> if network = ''tcp'' then Some a else None
       | _ \<Rightarrow> None) tr"

text \<open>The port of a listen address.\<close>

definition addr_port :: "string \<Rightarrow> int option" where
  "addr_port a = (case SplitHostPort a of Inl e \<Rightarrow> None | Inr (h, p) \<Rightarrow> Atoi p)"

lemma published_simps [simp]:
  "published [] = []" "published (xs @ ys) = published xs @ published ys"
  "published (b # tr) = (case b of Publish n \<Rightarrow> n # published tr | _ \<Rightarrow> published tr)"
  by (simp_all add: published_def List.map_filter_def split: boot.split)

lemma tcp_binds_simps [simp]:
  "tcp_binds [] = []" "tcp_binds (xs @ ys) = tcp_binds xs @ tcp_binds ys"
  "tcp_binds (b # tr) = (case b of
     Bind network a \<Rightarrow> if network = ''tcp'' then a # tcp_binds tr else tcp_binds tr
   | _ \<Rightarrow> tcp_binds tr)"
  by (simp_all add: tcp_binds_def List.map_filter_def split: boot.split)

text \<open>A start that stops early has published and bound a part of what it would have.\<close>

lemma published_andThen:
  assumes "subseq (published (fst a)) xs" "subseq (published (fst b)) ys"
  shows "subseq (published (fst (andThen a b))) (xs @ ys)"
  using assms by (simp add: andThen_def list_emb_append_mono list_emb_prefix)

lemma binds_andThen:
  assumes "subseq (tcp_binds (fst a)) xs" "subseq (tcp_binds (fst b)) ys"
  shows "subseq (tcp_binds (fst (andThen a b))) (xs @ ys)"
  using assms by (simp add: andThen_def list_emb_append_mono list_emb_prefix)

lemma published_run_all:
  assumes "\<And>x. subseq (published (fst (f x))) [g x]"
  shows "subseq (published (fst (run_all f xs))) (map g xs)"
proof (induction xs)
  case (Cons x xs)
  from published_andThen [OF assms [of x] Cons] show ?case by simp
qed simp

lemma binds_run_all:
  assumes "\<And>x. subseq (tcp_binds (fst (f x))) [g x]"
  shows "subseq (tcp_binds (fst (run_all f xs))) (map g xs)"
proof (induction xs)
  case (Cons x xs)
  from binds_andThen [OF assms [of x] Cons] show ?case by simp
qed simp

lemma published_parts:
  "subseq (published (fst (start_pg e fl u))) [''pgproxy_'' @ u_Name u]"
  "subseq (published (fst (start_tcp e fl t))) [''tcp_'' @ t_Name t]"
  "subseq (published (fst (start_connect e fl))) [''http_proxy'']"
  "published (fst (startDNSForwarder e fl)) = []"
  by (auto simp: start_defs andThen_def
      split: sum.splits option.splits)

lemma binds_parts:
  "subseq (tcp_binds (fst (start_pg e fl u))) [fly_addr fl (u_Listen u)]"
  "subseq (tcp_binds (fst (start_tcp e fl t))) [fly_addr fl (t_Listen t)]"
  "subseq (tcp_binds (fst (start_connect e fl)))
     (if httpProxyListen fl \<noteq> [] then [httpProxyListen fl] else [])"
  "subseq (tcp_binds (fst (startDNSForwarder e fl))) [dnsListen]"
  by (auto simp: start_defs andThen_def
      split: sum.splits option.splits)

subsection \<open>No conflicts\<close>

lemma parsed_pg_names:
  "parseDestinationPgDbs fl = Inr cfgs \<Longrightarrow> distinct (map u_Name cfgs)"
  by (auto simp: parseDestinationPgDbs_def parseDestinationPgDbsJSON_def pg_entries_accepts Let_def
      split: if_splits option.splits)

lemma parsed_tcp_names:
  "parseDestinationTCPTargets fl = Inr ts \<Longrightarrow> distinct (map t_Name ts)"
  by (auto simp: parseDestinationTCPTargets_def parseDestinationTCPTargetsJSON_def tcp_entries_accepts Let_def
      split: if_splits option.splits)

lemma Itoa_plain: "plain_host (Itoa n)" "CHR '':'' \<notin> set (Itoa n)"
proof -
  have "c \<in> set (Itoa n) \<Longrightarrow> is_digit c \<or> c = CHR ''-''" for c
    using itoa_nat_digits [of "nat n"] itoa_nat_digits [of "nat (- n)"]
    by (auto simp: Itoa_def list_all_iff split: if_splits)
  moreover have "\<not> is_digit (CHR '':'')" "\<not> is_digit (CHR ''['')" "\<not> is_digit (CHR '']'')"
    by (simp_all add: is_digit_def)
  ultimately show "plain_host (Itoa n)" "CHR '':'' \<notin> set (Itoa n)"
    unfolding plain_host_def by fastforce+
qed

lemma addr_port_Join:
  assumes "plain_host h" "0 \<le> n" "n < 2 ^ 63"
  shows "addr_port (JoinHostPort h (Itoa n)) = Some n"
proof -
  have "Atoi (Itoa n) = Some n"
    using Atoi_itoa_nat [of "nat n"] assms by (simp add: Itoa_def)
  then show ?thesis
    using SplitHostPort_Join [OF assms(1) Itoa_plain] by (simp add: addr_port_def)
qed

lemma addr_port_connect:
  assumes "connect_addr_ok addr"
  shows "map addr_port (if addr \<noteq> [] then [addr] else []) = map Some (connect_ports addr)"
  using assms
  by (auto simp: connect_addr_ok_def connect_ports_def connect_claims_def addr_port_def
      split: sum.splits option.splits)

lemma addr_port_dns: "addr_port dnsListen = Some 53"
  by code_simp

text \<open>All the addresses a start may bind on TCP, and all the names it may publish.\<close>

definition all_binds :: "flags \<Rightarrow> upstreamConfig list \<Rightarrow> tcpTarget list \<Rightarrow> string list" where
  "all_binds fl cfgs ts =
     (if debugPort fl \<noteq> 0 then [debug_addr fl] else [])
     @ map (\<lambda>u. fly_addr fl (u_Listen u)) cfgs @ map (\<lambda>t. fly_addr fl (t_Listen t)) ts
     @ (if httpProxyListen fl \<noteq> [] then [httpProxyListen fl] else []) @ [dnsListen]"

definition all_names :: "upstreamConfig list \<Rightarrow> tcpTarget list \<Rightarrow> string list" where
  "all_names cfgs ts =
     map (\<lambda>u. ''pgproxy_'' @ u_Name u) cfgs @ map (\<lambda>t. ''tcp_'' @ t_Name t) ts @ [''http_proxy'']"

definition valid_start :: "flags \<Rightarrow> upstreamConfig list \<Rightarrow> tcpTarget list \<Rightarrow> bool" where
  "valid_start fl cfgs ts =
     (parseDestinationPgDbs fl = Inr cfgs
      \<and> parseDestinationTCPTargets fl = Inr ts
      \<and> validateListenPorts cfgs ts (httpProxyListen fl) (debugPort fl) = Inr ())"

lemma runProxies_valid:
  "valid_start fl cfgs ts \<Longrightarrow> runProxies e fl b =
     andThen (run_all (start_pg e fl) cfgs)
       (andThen (run_all (start_tcp e fl) ts)
       (andThen (if b then ([RegisterDevPage cfgs ts], True) else ([], True))
       (andThen (start_connect e fl) (startDNSForwarder e fl))))"
  by (simp add: valid_start_def runProxies_def)

lemma runProxies_invalid:
  "\<nexists>cfgs ts. valid_start fl cfgs ts \<Longrightarrow> \<exists>msg. runProxies e fl b = ([Fatal msg], False)"
  by (auto simp: valid_start_def runProxies_def split: sum.splits)

lemma published_runProxies:
  assumes "valid_start fl cfgs ts"
  shows "subseq (published (fst (runProxies e fl b))) (all_names cfgs ts)"
proof -
  have "subseq (published (fst (andThen (start_connect e fl) (startDNSForwarder e fl))))
      ([''http_proxy''] @ [])"
    by (intro published_andThen published_parts) (simp add: published_parts(4))
  then have "subseq (published (fst (andThen
      (if b then ([RegisterDevPage cfgs ts], True) else ([], True))
      (andThen (start_connect e fl) (startDNSForwarder e fl))))) ([] @ [''http_proxy''])"
    by (intro published_andThen) simp_all
  then show ?thesis
    unfolding runProxies_valid [OF assms] all_names_def
    by (intro published_andThen published_run_all published_parts) simp
qed

lemma binds_gateway_main:
  assumes "valid_start fl cfgs ts"
  shows "subseq (tcp_binds (fst (gateway_main e fl))) (all_binds fl cfgs ts)"
proof -
  let ?b = "debugPort fl \<noteq> 0"
  have "subseq (tcp_binds (fst (andThen (if ?b then ([RegisterDevPage cfgs ts], True) else ([], True))
      (andThen (start_connect e fl) (startDNSForwarder e fl)))))
      ([] @ (if httpProxyListen fl \<noteq> [] then [httpProxyListen fl] else []) @ [dnsListen])"
    by (intro binds_andThen binds_parts) simp
  then have r: "subseq (tcp_binds (fst (runProxies e fl ?b)))
      (map (\<lambda>u. fly_addr fl (u_Listen u)) cfgs @ map (\<lambda>t. fly_addr fl (t_Listen t)) ts
     @ (if httpProxyListen fl \<noteq> [] then [httpProxyListen fl] else []) @ [dnsListen])"
    unfolding runProxies_valid [OF assms]
    by (intro binds_andThen [OF binds_run_all [OF binds_parts(1)]]
        binds_andThen [OF binds_run_all [OF binds_parts(2)]]) simp
  have d: "subseq (tcp_binds (fst (if ?b then listen e ''tcp'' (debug_addr fl) ServeDebug else ([], True))))
      (if ?b then [debug_addr fl] else [])"
    by (simp add: listen_def)
  show ?thesis
  proof (cases "upstreamCA fl = []")
    case False
    then show ?thesis
      using binds_andThen [OF d r] by (simp only: gateway_main_def all_binds_def if_False)
  qed (simp add: gateway_main_def)
qed

lemma published_gateway_main:
  assumes "valid_start fl cfgs ts"
  shows "subseq (published (fst (gateway_main e fl))) (all_names cfgs ts)"
proof -
  let ?b = "debugPort fl \<noteq> 0"
  have "subseq (published (fst (if ?b then listen e ''tcp'' (debug_addr fl) ServeDebug else ([], True)))) []"
    by (simp add: listen_def)
  from published_andThen [OF this published_runProxies [OF assms, of e ?b]]
  show ?thesis by (simp add: gateway_main_def)
qed

lemma subseq_distinct: "subseq xs ys \<Longrightarrow> distinct ys \<Longrightarrow> distinct xs"
  by (metis subseq_conv_nths distinct_nthsI)

lemma subseq_subset: "subseq xs ys \<Longrightarrow> set xs \<subseteq> set ys"
  by (metis subseq_conv_nths set_nths_subset)

lemma distinct_all_names:
  assumes "distinct (map u_Name cfgs)" "distinct (map t_Name ts)"
  shows "distinct (''cmdline'' # ''memstats'' # all_names cfgs ts)"
  using assms by (auto simp: all_names_def distinct_map inj_on_def)

lemma map_addr_port_all_binds:
  assumes "valid_start fl cfgs ts" "plain_host (Trim (flyListenHost fl) ''[]'')"
    and "0 \<le> debugPort fl" "debugPort fl < 2 ^ 63"
  shows "distinct (map addr_port (all_binds fl cfgs ts)) \<and> None \<notin> set (map addr_port (all_binds fl cfgs ts))"
proof -
  from assms(1) have v: "list_all pg_in_range cfgs" "list_all tcp_in_range ts"
    "connect_addr_ok (httpProxyListen fl)"
    "distinct (claimed_ports cfgs ts (httpProxyListen fl) (debugPort fl))"
    by (auto simp: valid_start_def validate_iff)
  have pg: "map addr_port (map (\<lambda>u. fly_addr fl (u_Listen u)) cfgs) = map Some (map u_Listen cfgs)"
    using v(1) assms(2) by (auto simp: fly_addr_def list_all_iff pg_in_range_def addr_port_Join)
  have tcp: "map addr_port (map (\<lambda>t. fly_addr fl (t_Listen t)) ts) = map Some (map t_Listen ts)"
    using v(2) assms(2) by (auto simp: fly_addr_def list_all_iff tcp_in_range_def addr_port_Join)
  have "debug_addr fl = JoinHostPort [] (Itoa (debugPort fl))"
    by (simp add: debug_addr_def JoinHostPort_def)
  then have dbg: "addr_port (debug_addr fl) = Some (debugPort fl)"
    using assms(3,4) by (simp add: addr_port_Join plain_host_def)
  have "map addr_port (all_binds fl cfgs ts) =
     map Some ((if debugPort fl > 0 then [debugPort fl] else []) @ map u_Listen cfgs @ map t_Listen ts
       @ connect_ports (httpProxyListen fl) @ [53])"
    unfolding all_binds_def map_append pg tcp addr_port_connect [OF v(3)]
    using assms(3) by (simp add: addr_port_dns dbg)
  moreover have "distinct ((if debugPort fl > 0 then [debugPort fl] else []) @ map u_Listen cfgs
      @ map t_Listen ts @ connect_ports (httpProxyListen fl) @ [53])"
    using v(4) by (auto simp: claimed_ports_def)
  ultimately show ?thesis
    by (simp only: distinct_map set_map) (auto simp: inj_on_def)
qed

text \<open>C14: a start never defeats itself: the names it registers with expvar, which panics on a
  repeated one, are pairwise distinct and differ from the two the package registers, and no two
  of the TCP listeners it binds, the debug page, the Postgres and plain-TCP listeners, the
  CONNECT proxy and the DNS forwarder, share a port, wherever the start stops.\<close>

theorem start_without_conflicts:
  assumes "plain_host (Trim (flyListenHost fl) ''[]'')" "0 \<le> debugPort fl" "debugPort fl < 2 ^ 63"
  shows "distinct (''cmdline'' # ''memstats'' # published (fst (gateway_main e fl)))
    \<and> distinct (map addr_port (tcp_binds (fst (gateway_main e fl))))
    \<and> None \<notin> set (map addr_port (tcp_binds (fst (gateway_main e fl))))"
proof (cases "\<exists>cfgs ts. valid_start fl cfgs ts")
  case True
  then obtain cfgs ts where v: "valid_start fl cfgs ts" by blast
  have names: "distinct (''cmdline'' # ''memstats'' # all_names cfgs ts)"
    using v by (intro distinct_all_names parsed_pg_names parsed_tcp_names) (auto simp: valid_start_def)
  have "subseq (''cmdline'' # ''memstats'' # published (fst (gateway_main e fl)))
      (''cmdline'' # ''memstats'' # all_names cfgs ts)"
    using published_gateway_main [OF v] by simp
  from subseq_distinct [OF this names]
  have 1: "distinct (''cmdline'' # ''memstats'' # published (fst (gateway_main e fl)))" .
  have "subseq (map addr_port (tcp_binds (fst (gateway_main e fl)))) (map addr_port (all_binds fl cfgs ts))"
    by (intro subseq_map binds_gateway_main [OF v])
  moreover note map_addr_port_all_binds [OF v assms]
  ultimately have 2: "distinct (map addr_port (tcp_binds (fst (gateway_main e fl))))"
    "None \<notin> set (map addr_port (tcp_binds (fst (gateway_main e fl))))"
    using subseq_distinct subseq_subset by blast+
  from 1 2 show ?thesis by blast
next
  case False
  from runProxies_invalid [OF this, of e] obtain msg where
    r: "runProxies e fl (debugPort fl \<noteq> 0) = ([Fatal msg], False)" by blast
  have "debug_addr fl = JoinHostPort [] (Itoa (debugPort fl))"
    by (simp add: debug_addr_def JoinHostPort_def)
  then have "addr_port (debug_addr fl) = Some (debugPort fl)"
    using assms(2,3) by (simp add: addr_port_Join plain_host_def)
  with r show ?thesis
    by (auto simp: gateway_main_def andThen_def listen_def)
qed

text \<open>C15: all or nothing: no Postgres, plain-TCP, CONNECT or DNS listener is bound, and nothing
  is served on one, unless both configuration texts parse and the table of ports is free of
  clashes; a start with a bad configuration stops with at most the debug page bound.\<close>

theorem invalid_config_binds_nothing:
  assumes "\<nexists>cfgs ts. valid_start fl cfgs ts"
  shows "\<exists>msg. fst (gateway_main e fl) \<in>
      {[Fatal msg], [Bind ''tcp'' (debug_addr fl), ServeDebug, Fatal msg]}
    \<and> \<not> snd (gateway_main e fl)"
proof -
  from runProxies_invalid [OF assms, of e] obtain msg where
    r: "runProxies e fl (debugPort fl \<noteq> 0) = ([Fatal msg], False)" by blast
  show ?thesis
    using r by (auto simp: gateway_main_def andThen_def listen_def)
qed

lemma snd_andThen: "snd (andThen a b) \<longleftrightarrow> snd a \<and> snd b"
  by (simp add: andThen_def)

lemma fst_andThen: "snd a \<Longrightarrow> fst (andThen a b) = fst a @ fst b"
  by (simp add: andThen_def)

lemma run_all_ok:
  "snd (run_all f xs) \<Longrightarrow> list_all (\<lambda>x. snd (f x)) xs \<and> fst (run_all f xs) = concat (map (fst \<circ> f) xs)"
  by (induction xs) (auto simp: snd_andThen fst_andThen)

lemma start_parts_ok:
  "snd (start_pg e fl u) \<Longrightarrow> \<exists>p. newProxy (bt_crypto e) (u_Target u) (upstreamCA fl) = Inr p
     \<and> fst (start_pg e fl u) = Publish (''pgproxy_'' @ u_Name u)
       # (if flyListenHost fl \<noteq> []
          then [Bind ''tcp'' (fly_addr fl (u_Listen u)), ServePg (p\<lparr>pcfg := u\<rparr>)] else [])"
  "snd (start_tcp e fl t) \<Longrightarrow> fst (start_tcp e fl t) = Publish (''tcp_'' @ t_Name t)
       # (if flyListenHost fl \<noteq> []
          then [Bind ''tcp'' (fly_addr fl (t_Listen t)), ServeTCP t] else [])"
  "snd (start_connect e fl) \<Longrightarrow> fst (start_connect e fl) =
       (if httpProxyListen fl \<noteq> []
        then [Publish ''http_proxy'', Bind ''tcp'' (httpProxyListen fl), ServeConnect] else [])"
  "snd (startDNSForwarder e fl) \<Longrightarrow> fst (startDNSForwarder e fl) =
       (case dns_start (bt_lower e) fl of
          None \<Rightarrow> []
        | Some (r, st) \<Rightarrow> [Bind ''udp'' dnsListen, ServeDNSUDP r, Bind ''tcp'' dnsListen, ServeDNSTCP r])"
  by (auto simp: start_defs snd_andThen fst_andThen
      split: sum.splits option.splits if_splits)

definition fly_served :: "flags \<Rightarrow> int \<Rightarrow> boot \<Rightarrow> boot list" where
  "fly_served fl n b = (if flyListenHost fl \<noteq> [] then [Bind ''tcp'' (fly_addr fl n), b] else [])"

text \<open>C16: a start that runs to its end serves exactly what is configured: in this order, the
  debug page unless its port is 0, for every Postgres entry a proxy for its target and
  credentials on its own port, for every plain-TCP entry a forwarder on its own port (both
  kinds only published when the listen host is empty), the dev page of exactly those entries,
  the CONNECT proxy when it has an address, and the DNS forwarder, over UDP and TCP to the
  same resolver, when there is one.\<close>

theorem started_serves_configuration:
  assumes "gateway_main e fl = (tr, True)"
  shows "\<exists>cfgs ts proxies. valid_start fl cfgs ts \<and> upstreamCA fl \<noteq> []
    \<and> list_all2 (\<lambda>u p. \<exists>q. newProxy (bt_crypto e) (u_Target u) (upstreamCA fl) = Inr q
        \<and> p = q\<lparr>pcfg := u\<rparr>) cfgs proxies
    \<and> tr = (if debugPort fl \<noteq> 0 then [Bind ''tcp'' (debug_addr fl), ServeDebug] else [])
      @ concat (map (\<lambda>p. Publish (''pgproxy_'' @ u_Name (pcfg p))
          # fly_served fl (u_Listen (pcfg p)) (ServePg p)) proxies)
      @ concat (map (\<lambda>t. Publish (''tcp_'' @ t_Name t) # fly_served fl (t_Listen t) (ServeTCP t)) ts)
      @ (if debugPort fl \<noteq> 0 then [RegisterDevPage cfgs ts] else [])
      @ (if httpProxyListen fl \<noteq> []
         then [Publish ''http_proxy'', Bind ''tcp'' (httpProxyListen fl), ServeConnect] else [])
      @ (case dns_start (bt_lower e) fl of
           None \<Rightarrow> []
         | Some (r, st) \<Rightarrow>
             [Bind ''udp'' dnsListen, ServeDNSUDP r, Bind ''tcp'' dnsListen, ServeDNSTCP r])"
proof -
  let ?b = "debugPort fl \<noteq> 0"
  have ca: "upstreamCA fl \<noteq> []" using assms by (auto simp: gateway_main_def)
  have m: "gateway_main e fl = andThen (if ?b then listen e ''tcp'' (debug_addr fl) ServeDebug else ([], True))
      (runProxies e fl ?b)"
    using ca by (simp only: gateway_main_def if_False)
  have ok: "snd (gateway_main e fl)" using assms by simp
  then have r: "snd (runProxies e fl ?b)" unfolding m snd_andThen by blast
  then obtain cfgs ts where v: "valid_start fl cfgs ts"
    using runProxies_invalid [of fl e ?b] by fastforce
  note rp = runProxies_valid [OF v, of e ?b]
  have s: "snd (run_all (start_pg e fl) cfgs)" "snd (run_all (start_tcp e fl) ts)"
    "snd (start_connect e fl)" "snd (startDNSForwarder e fl)"
    using r unfolding rp snd_andThen by blast+
  define proxies where "proxies = map (\<lambda>u.
      (projr (newProxy (bt_crypto e) (u_Target u) (upstreamCA fl)))\<lparr>pcfg := u\<rparr>) cfgs"
  have pg: "list_all (\<lambda>u. snd (start_pg e fl u)) cfgs"
    "fst (run_all (start_pg e fl) cfgs) = concat (map (fst \<circ> start_pg e fl) cfgs)"
    using run_all_ok [OF s(1)] by blast+
  have tcp: "list_all (\<lambda>t. snd (start_tcp e fl t)) ts"
    "fst (run_all (start_tcp e fl) ts) = concat (map (fst \<circ> start_tcp e fl) ts)"
    using run_all_ok [OF s(2)] by blast+
  have p1: "list_all2 (\<lambda>u p. \<exists>q. newProxy (bt_crypto e) (u_Target u) (upstreamCA fl) = Inr q
        \<and> p = q\<lparr>pcfg := u\<rparr>) cfgs proxies"
    using pg(1) start_parts_ok(1) [of e fl]
    by (fastforce simp: proxies_def list_all2_map2 list_all_iff intro!: list.rel_refl_strong)
  have "fst (start_pg e fl u) = (\<lambda>p. Publish (''pgproxy_'' @ u_Name (pcfg p))
          # fly_served fl (u_Listen (pcfg p)) (ServePg p))
        ((projr (newProxy (bt_crypto e) (u_Target u) (upstreamCA fl)))\<lparr>pcfg := u\<rparr>)"
    if "u \<in> set cfgs" for u
    using start_parts_ok(1) [of e fl u] pg(1) that by (auto simp: list_all_iff fly_served_def)
  then have p2: "concat (map (fst \<circ> start_pg e fl) cfgs) =
      concat (map (\<lambda>p. Publish (''pgproxy_'' @ u_Name (pcfg p))
          # fly_served fl (u_Listen (pcfg p)) (ServePg p)) proxies)"
    unfolding proxies_def map_map by (intro arg_cong [where f = concat] map_cong) simp_all
  have t2: "concat (map (fst \<circ> start_tcp e fl) ts) =
      concat (map (\<lambda>t. Publish (''tcp_'' @ t_Name t) # fly_served fl (t_Listen t) (ServeTCP t)) ts)"
    using start_parts_ok(2) [of e fl] tcp(1)
    by (intro arg_cong [where f = concat] map_cong) (simp_all add: list_all_iff fly_served_def)
  have d: "fst (if ?b then listen e ''tcp'' (debug_addr fl) ServeDebug else ([], True))
      = (if ?b then [Bind ''tcp'' (debug_addr fl), ServeDebug] else [])"
    "snd (if ?b then listen e ''tcp'' (debug_addr fl) ServeDebug else ([], True))"
    using ok unfolding m snd_andThen by (auto simp: listen_def split: if_splits)
  have rest: "fst (runProxies e fl ?b) = concat (map (fst \<circ> start_pg e fl) cfgs)
      @ concat (map (fst \<circ> start_tcp e fl) ts) @ (if ?b then [RegisterDevPage cfgs ts] else [])
      @ fst (start_connect e fl) @ fst (startDNSForwarder e fl)"
    unfolding rp using s by (simp add: fst_andThen snd_andThen pg(2) tcp(2))
  have "tr = fst (if ?b then listen e ''tcp'' (debug_addr fl) ServeDebug else ([], True))
      @ fst (runProxies e fl ?b)"
    using arg_cong [OF assms, of fst] d(2) unfolding m by (simp only: fst_andThen fst_conv)
  with v ca p1 show ?thesis
    unfolding d(1) rest p2 t2 start_parts_ok(3) [OF s(3)] start_parts_ok(4) [OF s(4)]
    by blast
qed

subsection \<open>A start, worked out\<close>

definition boot_flags :: flags where
  \<open>boot_flags = \<lparr>destinationPgDbs = ''[{"name":"rw","listen":5432,"target":"db:5432"}]'',
     destinationTCPTargets = ''[{"name": "mts", "listen": 9001, "target": "feed:5671"}]'',
     flyListenHost = ''[::]'',
     httpProxyListen = ''[::]:8080'', tailscaleEnabled = True, httpProxyAllowTailscale = False,
     debugPort = 80, upstreamCA = ''ca.pem'', dnsResolver = [], aliasDomainFlag = ''prod'',
     internalDomainFlag = [], FLY_APP_NAME = ''gateway''\<rparr>\<close>

definition demo_boot :: boot_env where
  "demo_boot = \<lparr>bt_crypto = \<lparr>generateKey = Some ''key'', createCertificate = (\<lambda>t k. Some ''der''),
       parseCertificate = (\<lambda>der. Some \<lparr>SerialNumber = 1, Organization = [], DNSNames = [''db''],
         NotBefore = 0, NotAfter = 1, digitalSignature = True, serverAuth = True,
         BasicConstraintsValid = True\<rparr>),
       t_not_before = 0, t_not_after = 0, readFile = (\<lambda>path. Some ''pem''),
       appendCertsFromPEM = (\<lambda>pem. True)\<rparr>,
     bt_lower = id, bind_ok = (\<lambda>network addr. True)\<rparr>"

theorem start_without_conflicts_witness:
  "distinct (map addr_port (tcp_binds (fst (gateway_main demo_boot boot_flags))))
   \<and> length (tcp_binds (fst (gateway_main demo_boot boot_flags))) = 5"
proof -
  have "plain_host (Trim (flyListenHost boot_flags) ''[]'')" "0 \<le> debugPort boot_flags"
    "debugPort boot_flags < 2 ^ 63"
    by (code_simp, simp add: boot_flags_def, simp add: boot_flags_def)
  from start_without_conflicts [OF this, of demo_boot]
  have "distinct (map addr_port (tcp_binds (fst (gateway_main demo_boot boot_flags))))" by blast
  moreover have "length (tcp_binds (fst (gateway_main demo_boot boot_flags))) = 5" by code_simp
  ultimately show ?thesis by blast
qed

theorem invalid_config_binds_nothing_witness:
  "\<exists>msg. fst (gateway_main demo_boot (boot_flags\<lparr>destinationPgDbs := ''x''\<rparr>)) \<in>
      {[Fatal msg], [Bind ''tcp'' '':80'', ServeDebug, Fatal msg]}"
proof -
  have "isl (parseDestinationPgDbs (boot_flags\<lparr>destinationPgDbs := ''x''\<rparr>))" by code_simp
  then have "\<nexists>cfgs ts. valid_start (boot_flags\<lparr>destinationPgDbs := ''x''\<rparr>) cfgs ts"
    by (auto simp: valid_start_def)
  from invalid_config_binds_nothing [OF this]
  have "\<exists>msg. fst (gateway_main demo_boot (boot_flags\<lparr>destinationPgDbs := ''x''\<rparr>)) \<in>
      {[Fatal msg], [Bind ''tcp'' (debug_addr (boot_flags\<lparr>destinationPgDbs := ''x''\<rparr>)),
        ServeDebug, Fatal msg]}"
    by blast
  moreover have "debug_addr (boot_flags\<lparr>destinationPgDbs := ''x''\<rparr>) = '':80''" by code_simp
  ultimately show ?thesis by simp
qed

theorem started_serves_configuration_witness:
  "\<exists>cfgs ts. valid_start boot_flags cfgs ts \<and> cfgs \<noteq> [] \<and> ts \<noteq> []"
proof -
  have "snd (gateway_main demo_boot boot_flags)" by code_simp
  then obtain tr where tr: "gateway_main demo_boot boot_flags = (tr, True)"
    by (metis (full_types) prod.collapse)
  from started_serves_configuration [OF tr] obtain cfgs ts where
    v: "valid_start boot_flags cfgs ts" by blast
  have "projr (parseDestinationPgDbs boot_flags) \<noteq> []"
    "projr (parseDestinationTCPTargets boot_flags) \<noteq> []"
    by (code_simp, code_simp)
  with v have "cfgs \<noteq> []" "ts \<noteq> []" by (simp_all add: valid_start_def)
  with v show ?thesis by blast
qed

end
