(* ===== verification/Gateway.thy ===== *)
theory Gateway
  imports Bootstrap Expvar
begin

text \<open>
  The whole process: the main goroutine performing the start of \<open>Bootstrap\<close> event by event
  while the listeners it has already started accept connections, each handled by its own
  goroutine. The state holds what the start has done and still has to do, the connections
  accepted so far with what their handlers still have to do, the counters of every published
  name, and the log of what the handlers did. The process is gone after a fatal event of the
  start or when a listener fails.
\<close>

datatype conn =
    PgConn (pg_proxy: proxy) (pg_w: pg_world) (pg_caches: ident_caches)
  | TCPConn (tcp_target: tcpTarget) (tcp_w: tcp_world)
  | HTTPConn (http_w: http_world)

text \<open>A handler runs with the identity caches as it finds them; which contents they can have is
  left open here.\<close>

fun conn_trace :: "pgx \<Rightarrow> flags \<Rightarrow> conn \<Rightarrow> trace" where
  "conn_trace px fl (PgConn p w s) = pg_handler px p fl (w, s)"
| "conn_trace px fl (TCPConn t w) = tcp_handle t fl w"
| "conn_trace px fl (HTTPConn w) = ServeHTTP fl w"


text \<open>The event of the start that begins to serve a connection's listener, and the name its
  counters are published under.\<close>

fun conn_listener :: "conn \<Rightarrow> boot" where
  "conn_listener (PgConn p w s) = ServePg p"
| "conn_listener (TCPConn t w) = ServeTCP t"
| "conn_listener (HTTPConn w) = ServeConnect"

fun conn_var :: "conn \<Rightarrow> string" where
  "conn_var (PgConn p w s) = ''pgproxy_'' @ u_Name (pcfg p)"
| "conn_var (TCPConn t w) = ''tcp_'' @ t_Name t"
| "conn_var (HTTPConn w) = ''http_proxy''"

record gateway =
  g_done :: "boot list"
  g_todo :: "boot list"
  g_alive :: bool
  g_conns :: "(conn \<times> trace) list"
  g_vars :: "string \<Rightarrow> metrics"
  g_log :: "(conn \<times> event) list"

fun is_fatal :: "boot \<Rightarrow> bool" where
  "is_fatal (Fatal msg) = True"
| "is_fatal _ = False"

definition gateway_init :: "boot_env \<Rightarrow> flags \<Rightarrow> gateway" where
  "gateway_init e fl = \<lparr>g_done = [], g_todo = fst (gateway_main e fl), g_alive = True,
     g_conns = [], g_vars = (\<lambda>n. zero_metrics), g_log = []\<rparr>"

inductive gateway_step :: "pgx \<Rightarrow> flags \<Rightarrow> gateway \<Rightarrow> gateway \<Rightarrow> bool" for px fl where
  boot_step: "g_alive g \<Longrightarrow> g_todo g = b # bs \<Longrightarrow>
    gateway_step px fl g (g\<lparr>g_done := g_done g @ [b], g_todo := bs, g_alive := \<not> is_fatal b\<rparr>)"
| accept_step: "g_alive g \<Longrightarrow> conn_listener c \<in> set (g_done g) \<Longrightarrow>
    gateway_step px fl g (g\<lparr>g_conns := g_conns g @ [(c, conn_trace px fl c)]\<rparr>)"
| handler_step: "g_alive g \<Longrightarrow> g_conns g = xs @ (c, ev # tr) # ys \<Longrightarrow>
    gateway_step px fl g (g\<lparr>g_conns := xs @ (c, tr) # ys,
      g_vars := (g_vars g)(conn_var c := count_event ev (g_vars g (conn_var c))),
      g_log := g_log g @ [(c, ev)]\<rparr>)"
| listener_fails: "g_alive g \<Longrightarrow> gateway_step px fl g (g\<lparr>g_alive := False\<rparr>)"

inductive gateway_reach :: "boot_env \<Rightarrow> pgx \<Rightarrow> flags \<Rightarrow> gateway \<Rightarrow> bool" for e px fl where
  gateway_begin: "gateway_reach e px fl (gateway_init e fl)"
| gateway_next: "gateway_reach e px fl g \<Longrightarrow> gateway_step px fl g g' \<Longrightarrow> gateway_reach e px fl g'"

subsection \<open>Who is served, by which listener\<close>

lemma gateway_inv:
  assumes "gateway_reach e px fl g"
  shows "g_done g @ g_todo g = fst (gateway_main e fl)
    \<and> (\<forall>(c, tr) \<in> set (g_conns g). conn_listener c \<in> set (g_done g) \<and> suffix tr (conn_trace px fl c))
    \<and> (\<forall>(c, ev) \<in> set (g_log g). conn_listener c \<in> set (g_done g) \<and> ev \<in> set (conn_trace px fl c))"
  using assms
proof (induction rule: gateway_reach.induct)
  case gateway_begin
  then show ?case by (simp add: gateway_init_def)
next
  case (gateway_next g g')
  from gateway_next.hyps(2) show ?case
  proof cases
    case (handler_step xs c ev tr ys)
    with gateway_next.IH have "suffix (ev # tr) (conn_trace px fl c)" by auto
    then have "suffix tr (conn_trace px fl c)" "ev \<in> set (conn_trace px fl c)"
      by (auto simp: suffix_def)
    with handler_step gateway_next.IH show ?thesis by auto
  qed (use gateway_next.IH in auto)
qed

lemma gateway_served:
  assumes "gateway_reach e px fl g" "c \<in> fst ` set (g_conns g)"
  shows "conn_listener c \<in> set (fst (gateway_main e fl))"
proof -
  from gateway_inv [OF assms(1)] assms(2)
  have "conn_listener c \<in> set (g_done g)" "g_done g @ g_todo g = fst (gateway_main e fl)" by auto
  then show ?thesis by (metis UnI1 set_append)
qed

text \<open>The events of a start, whether it completes or not.\<close>

lemma set_andThen: "set (fst (andThen a b)) \<subseteq> set (fst a) \<union> set (fst b)"
  by (simp add: andThen_def)

lemma set_run_all: "b \<in> set (fst (run_all f xs)) \<Longrightarrow> \<exists>x \<in> set xs. b \<in> set (fst (f x))"
  by (induction xs) (auto simp: andThen_def split: if_splits)

definition proxy_for :: "boot_env \<Rightarrow> flags \<Rightarrow> upstreamConfig \<Rightarrow> proxy \<Rightarrow> bool" where
  "proxy_for e fl u p \<longleftrightarrow>
     (\<exists>q. newProxy (bt_crypto e) (u_Target u) (upstreamCA fl) = Inr q \<and> p = q\<lparr>pcfg := u\<rparr>)"

lemma proxy_forI:
  "newProxy (bt_crypto e) (u_Target u) (upstreamCA fl) = Inr q \<Longrightarrow> proxy_for e fl u (q\<lparr>pcfg := u\<rparr>)"
  by (auto simp: proxy_for_def)

text \<open>Which listeners a configuration gives rise to.\<close>

fun configured :: "boot_env \<Rightarrow> flags \<Rightarrow> upstreamConfig list \<Rightarrow> tcpTarget list \<Rightarrow> boot \<Rightarrow> bool" where
  "configured e fl cfgs ts (ServePg p) = (\<exists>u \<in> set cfgs. proxy_for e fl u p)"
| "configured e fl cfgs ts (ServeTCP t) = (t \<in> set ts)"
| "configured e fl cfgs ts ServeConnect = (httpProxyListen fl \<noteq> [])"
| "configured e fl cfgs ts _ = True"

lemma configured_parts:
  "b \<in> set (fst (start_pg e fl u)) \<Longrightarrow> u \<in> set cfgs \<Longrightarrow> configured e fl cfgs ts b"
  "b \<in> set (fst (start_tcp e fl t)) \<Longrightarrow> t \<in> set ts \<Longrightarrow> configured e fl cfgs ts b"
  "b \<in> set (fst (start_connect e fl)) \<Longrightarrow> configured e fl cfgs ts b"
  "b \<in> set (fst (startDNSForwarder e fl)) \<Longrightarrow> configured e fl cfgs ts b"
  by (auto simp: start_defs andThen_def
      intro!: bexI [of _ u] proxy_forI split: sum.splits option.splits if_splits)

lemma started_configured:
  assumes "valid_start fl cfgs ts" "b \<in> set (fst (gateway_main e fl))"
  shows "configured e fl cfgs ts b"
proof -
  let ?dbg = "if debugPort fl \<noteq> 0 then listen e ''tcp'' (debug_addr fl) ServeDebug else ([], True)"
  let ?page = "if debugPort fl \<noteq> 0 then ([RegisterDevPage cfgs ts], True) else ([], True)"
  consider "b \<in> set (fst (run_all (start_pg e fl) cfgs))" | "b \<in> set (fst (run_all (start_tcp e fl) ts))"
    | "b \<in> set (fst (start_connect e fl))" | "b \<in> set (fst (startDNSForwarder e fl))"
    | "b \<in> set (fst ?dbg)" | "b \<in> set (fst ?page)" | "is_fatal b"
    using assms(2) set_andThen
    unfolding gateway_main_def runProxies_valid [OF assms(1)]
    by (auto split: if_splits dest!: subsetD [OF set_andThen])
  then show ?thesis
  proof cases
    case 5
    then show ?thesis by (auto simp: listen_def split: if_splits)
  next
    case 7
    then show ?thesis by (cases b) auto
  qed (auto dest!: set_run_all intro: configured_parts split: if_splits)
qed

lemma serving_needs_config:
  assumes "conn_listener c \<in> set (fst (gateway_main e fl))"
  shows "\<exists>cfgs ts. valid_start fl cfgs ts"
proof (rule ccontr)
  assume "\<nexists>cfgs ts. valid_start fl cfgs ts"
  from runProxies_invalid [OF this, of e] obtain msg where
    "runProxies e fl (debugPort fl \<noteq> 0) = ([Fatal msg], False)" by blast
  with assms show False
    by (cases c) (auto simp: gateway_main_def andThen_def listen_def split: if_splits)
qed


subsection \<open>The process reaches out for trusted sources and configured targets only\<close>















subsection \<open>The published counters of the whole process\<close>

definition accepted :: "boot \<Rightarrow> gateway \<Rightarrow> conn list" where
  "accepted b g = filter (\<lambda>c. conn_listener c = b) (map fst (g_conns g))"

definition pending :: "boot \<Rightarrow> gateway \<Rightarrow> trace list" where
  "pending b g = map snd (filter (\<lambda>(c, tr). conn_listener c = b) (g_conns g))"

text \<open>The process seen from one listener is a run of that listener, when the name its counters
  are published under is its own.\<close>

lemma listener_run:
  assumes "gateway_reach e px fl g"
    and "\<And>c. conn_listener c = b \<Longrightarrow> conn_trace px fl c = h (world c)"
    and "\<And>c. c \<in> fst ` set (g_conns g) \<Longrightarrow> conn_var c = n \<longleftrightarrow> conn_listener c = b"
  shows "server_run h (map world (accepted b g)) (pending b g, g_vars g n)"
  using assms(1,3)
proof (induction rule: gateway_reach.induct)
  case gateway_begin
  show ?case by (simp add: gateway_init_def accepted_def pending_def run_init)
next
  case (gateway_next g g')
  from gateway_next.hyps(2) show ?case
  proof cases
    case (accept_step c)
    with gateway_next.IH gateway_next.prems
    have "server_run h (map world (accepted b g)) (pending b g, g_vars g n)" by auto
    with accept_step assms(2) [of c] run_accept [of h _ _ _ "world c"] show ?thesis
      by (auto simp: accepted_def pending_def)
  next
    case (handler_step xs c ev tr ys)
    with gateway_next.IH gateway_next.prems
    have "server_run h (map world (accepted b g)) (pending b g, g_vars g n)"
      "conn_var c = n \<longleftrightarrow> conn_listener c = b" by (auto simp: image_Un)
    with handler_step run_session [of h] show ?thesis
      by (auto simp: accepted_def pending_def)
  qed (use gateway_next.IH gateway_next.prems in \<open>auto simp: accepted_def pending_def\<close>)
qed

text \<open>No two listeners of a start share a name.\<close>

lemma distinct_map_eq: "distinct (map f xs) \<Longrightarrow> x \<in> set xs \<Longrightarrow> y \<in> set xs \<Longrightarrow> f x = f y \<Longrightarrow> x = y"
  by (auto simp: distinct_map dest: inj_onD)

lemma conn_var_listener:
  assumes "valid_start fl cfgs ts" "configured e fl cfgs ts (conn_listener c)"
    and "configured e fl cfgs ts (conn_listener c')"
  shows "conn_var c = conn_var c' \<longleftrightarrow> conn_listener c = conn_listener c'"
proof -
  have d: "distinct (map u_Name cfgs)" "distinct (map t_Name ts)"
    using assms(1) by (auto simp: valid_start_def intro: parsed_pg_names parsed_tcp_names)
  have pg: "u_Name (pcfg p) = u_Name (pcfg p') \<longleftrightarrow> p = p'"
    if "\<exists>u \<in> set cfgs. proxy_for e fl u p" "\<exists>u \<in> set cfgs. proxy_for e fl u p'" for p p'
    using that distinct_map_eq [OF d(1)] by (fastforce simp: proxy_for_def)
  have tcp: "t_Name t = t_Name t' \<longleftrightarrow> t = t'" if "t \<in> set ts" "t' \<in> set ts" for t t'
    using that distinct_map_eq [OF d(2)] by blast
  show ?thesis
    using assms(2,3) by (cases c; cases c') (simp_all add: pg tcp)
qed

lemma served_run:
  assumes "gateway_reach e px fl g" "conn_listener c' \<in> set (g_done g)"
    and "\<And>c. conn_listener c = conn_listener c' \<Longrightarrow> conn_trace px fl c = h (world c)"
  shows "server_run h (map world (accepted (conn_listener c') g))
    (pending (conn_listener c') g, g_vars g (conn_var c'))"
proof -
  have main: "set (g_done g) \<subseteq> set (fst (gateway_main e fl))"
    using gateway_inv [OF assms(1)] by (metis Un_upper1 set_append)
  with assms(2) have c': "conn_listener c' \<in> set (fst (gateway_main e fl))" by blast
  from serving_needs_config [OF this] obtain cfgs ts where v: "valid_start fl cfgs ts" by blast
  show ?thesis
  proof (rule listener_run [where h = h and world = world, OF assms(1)])
    fix c assume "conn_listener c = conn_listener c'"
    then show "conn_trace px fl c = h (world c)" by (rule assms(3))
  next
    fix c assume "c \<in> fst ` set (g_conns g)"
    from started_configured [OF v gateway_served [OF assms(1) this]] started_configured [OF v c']
    show "conn_var c = conn_var c' \<longleftrightarrow> conn_listener c = conn_listener c'"
      by (intro conn_var_listener [OF v])
  qed
qed

text \<open>C23: the counters of the debug page, at every moment of every run of the process: the map
  published for a TCP target and the one of the CONNECT proxy account for exactly the
  connections of that listener (sessions active now, sessions started and errors by kind,
  complete once the handlers have returned), whatever the other listeners do; the map of a
  Postgres database shows no session, active or started, whatever it serves.\<close>

theorem gateway_page_exact:
  assumes "gateway_reach e px fl g"
  shows "(\<forall>t. ServeTCP t \<in> set (g_done g) \<longrightarrow>
      accounts (tcpProxy_Expvar (counted_tcp t (g_vars g (''tcp_'' @ t_Name t))))
        (tcp_served fl) (tcp_failure fl)
        (map tcp_w (accepted (ServeTCP t) g)) (pending (ServeTCP t) g))
    \<and> (ServeConnect \<in> set (g_done g) \<longrightarrow>
      accounts (httpProxy_Expvar (counted_http (g_vars g ''http_proxy'')))
        (http_served fl) (http_failure fl)
        (map http_w (accepted ServeConnect g)) (pending ServeConnect g))
    \<and> (\<forall>p. ServePg p \<in> set (g_done g) \<longrightarrow>
      (\<exists>errs. proxy_Expvar (g_vars g (''pgproxy_'' @ u_Name (pcfg p))) = ExpMap
        [''sessions_active'' \<mapsto> ExpInt 0, ''sessions_started'' \<mapsto> ExpInt 0,
         ''session_errors'' \<mapsto> errors_var errs]))"
proof (intro conjI allI impI)
  fix t assume t: "ServeTCP t \<in> set (g_done g)"
  have "server_run (tcp_handle t fl) (map tcp_w (accepted (ServeTCP t) g))
      (pending (ServeTCP t) g, g_vars g (''tcp_'' @ t_Name t))"
  proof -
    have *: "conn_trace px fl c = tcp_handle t fl (tcp_w c)" if "conn_listener c = ServeTCP t" for c
      using that by (cases c) auto
    show ?thesis
      using served_run [OF assms, of "TCPConn t undefined", where h = "tcp_handle t fl" and world = "tcp_w"] t *
      by simp
  qed
  then show "accounts (tcpProxy_Expvar (counted_tcp t (g_vars g (''tcp_'' @ t_Name t))))
        (tcp_served fl) (tcp_failure fl)
        (map tcp_w (accepted (ServeTCP t) g)) (pending (ServeTCP t) g)"
    by (rule tcp_account.server_accounts)
      (simp add: tcpProxy_Expvar_def counted_tcp_def newTCPProxy_def)
next
  assume h: "ServeConnect \<in> set (g_done g)"
  have "server_run (ServeHTTP fl) (map http_w (accepted ServeConnect g))
      (pending ServeConnect g, g_vars g ''http_proxy'')"
  proof -
    have *: "conn_trace px fl c = ServeHTTP fl (http_w c)" if "conn_listener c = ServeConnect" for c
      using that by (cases c) auto
    show ?thesis
      using served_run [OF assms, of "HTTPConn undefined", where h = "ServeHTTP fl" and world = "http_w"] h *
      by simp
  qed
  then show "accounts (httpProxy_Expvar (counted_http (g_vars g ''http_proxy'')))
        (http_served fl) (http_failure fl)
        (map http_w (accepted ServeConnect g)) (pending ServeConnect g)"
    by (rule http_account.server_accounts)
      (simp add: httpProxy_Expvar_def counted_http_def newHTTPProxy_def)
next
  fix p assume p: "ServePg p \<in> set (g_done g)"
  have "server_run (pg_handler px p fl) (map (\<lambda>c. (pg_w c, pg_caches c)) (accepted (ServePg p) g))
      (pending (ServePg p) g, g_vars g (''pgproxy_'' @ u_Name (pcfg p)))"
  proof -
    have *: "conn_trace px fl c = pg_handler px p fl (pg_w c, pg_caches c)" if "conn_listener c = ServePg p" for c
      using that by (cases c) auto
    show ?thesis
      using served_run [OF assms, of "PgConn p undefined undefined", where h = "pg_handler px p fl" and world = "\<lambda>c. (pg_w c, pg_caches c)"] p *
      by simp
  qed
  from pg_published_sessions [OF this]
  show "\<exists>errs. proxy_Expvar (g_vars g (''pgproxy_'' @ u_Name (pcfg p))) = ExpMap
        [''sessions_active'' \<mapsto> ExpInt 0, ''sessions_started'' \<mapsto> ExpInt 0,
         ''session_errors'' \<mapsto> errors_var errs]" by blast
qed

subsection \<open>A run, worked out\<close>

lemma boot_to_end:
  "gateway_reach e px fl g \<Longrightarrow> g_alive g \<Longrightarrow> list_all (\<lambda>b. \<not> is_fatal b) bs \<Longrightarrow>
     g_todo g = bs \<Longrightarrow> gateway_reach e px fl (g\<lparr>g_done := g_done g @ bs, g_todo := []\<rparr>)"
proof (induction bs arbitrary: g)
  case Nil
  then show ?case by (cases g) simp
next
  case (Cons b bs)
  let ?g = "g\<lparr>g_done := g_done g @ [b], g_todo := bs, g_alive := True\<rparr>"
  from gateway_next [OF Cons.prems(1) boot_step [OF Cons.prems(2,4)]] Cons.prems(3)
  have "gateway_reach e px fl ?g" by simp
  from Cons.IH [OF this] Cons.prems show ?case by (cases g) simp
qed

lemma handler_to_end:
  "gateway_reach e px fl g \<Longrightarrow> g_alive g \<Longrightarrow> g_conns g = xs @ [(c, tr)] \<Longrightarrow>
     gateway_reach e px fl (g\<lparr>g_conns := xs @ [(c, [])],
       g_vars := (g_vars g)(conn_var c := fold count_event tr (g_vars g (conn_var c))),
       g_log := g_log g @ map (Pair c) tr\<rparr>)"
proof (induction tr arbitrary: g)
  case Nil
  then show ?case by (cases g) simp
next
  case (Cons ev tr)
  from gateway_next [OF Cons.prems(1) handler_step [OF Cons.prems(2), of xs c ev tr "[]"]] Cons.prems
  have "gateway_reach e px fl (g\<lparr>g_conns := xs @ [(c, tr)],
      g_vars := (g_vars g)(conn_var c := count_event ev (g_vars g (conn_var c))),
      g_log := g_log g @ [(c, ev)]\<rparr>)" by simp
  from Cons.IH [OF this] Cons.prems show ?case by (cases g) (simp add: fun_upd_def cong: if_cong)
qed

definition demo_feed :: tcpTarget where
  "demo_feed = \<lparr>t_Name = ''mts'', t_Listen = 9001, t_Target = ''feed:5671''\<rparr>"

definition demo_conn :: conn where
  "demo_conn = TCPConn demo_feed demo_tcp_world"

lemma demo_gateway:
  "\<exists>g. gateway_reach demo_boot demo_px boot_flags g \<and> ServeTCP demo_feed \<in> set (g_done g)
     \<and> g_conns g = [(demo_conn, [])]
     \<and> g_log g = map (Pair demo_conn) (tcp_handle demo_feed boot_flags demo_tcp_world)"
proof -
  let ?bs = "fst (gateway_main demo_boot boot_flags)"
  have "list_all (\<lambda>b. \<not> is_fatal b) ?bs" by code_simp
  from boot_to_end [OF gateway_begin _ this]
  have r: "gateway_reach demo_boot demo_px boot_flags
      ((gateway_init demo_boot boot_flags)\<lparr>g_done := ?bs, g_todo := []\<rparr>)"
    by (simp add: gateway_init_def)
  have t: "ServeTCP demo_feed \<in> set ?bs"
  proof -
    have "list_ex (\<lambda>b. case b of ServeTCP t \<Rightarrow> t_Name t = ''mts'' \<and> t_Listen t = 9001
        \<and> t_Target t = ''feed:5671'' | _ \<Rightarrow> False) ?bs" by code_simp
    then obtain b where b: "b \<in> set ?bs" "case b of ServeTCP t \<Rightarrow> t_Name t = ''mts''
        \<and> t_Listen t = 9001 \<and> t_Target t = ''feed:5671'' | _ \<Rightarrow> False"
      by (auto simp: list_ex_iff)
    from b(2) have "b = ServeTCP demo_feed"
      by (cases b) (auto simp: demo_feed_def)
    with b(1) show ?thesis by simp
  qed
  from gateway_next [OF r accept_step [of _ demo_conn]] t
  have "gateway_reach demo_boot demo_px boot_flags
      ((gateway_init demo_boot boot_flags)\<lparr>g_done := ?bs, g_todo := [],
        g_conns := [(demo_conn, tcp_handle demo_feed boot_flags demo_tcp_world)]\<rparr>)"
    by (simp add: gateway_init_def demo_conn_def)
  from handler_to_end [OF this] t show ?thesis by (auto simp: gateway_init_def)
qed


theorem gateway_page_exact_witness:
  "\<exists>g. gateway_reach demo_boot demo_px boot_flags g
     \<and> accounts (tcpProxy_Expvar (counted_tcp demo_feed (g_vars g ''tcp_mts'')))
         (tcp_served boot_flags) (tcp_failure boot_flags) [demo_tcp_world] [[]]"
proof -
  from demo_gateway obtain g where g: "gateway_reach demo_boot demo_px boot_flags g"
    "ServeTCP demo_feed \<in> set (g_done g)" "g_conns g = [(demo_conn, [])]" by blast
  from gateway_page_exact [OF g(1)] g(2)
  have "accounts (tcpProxy_Expvar (counted_tcp demo_feed (g_vars g (''tcp_'' @ t_Name demo_feed))))
      (tcp_served boot_flags) (tcp_failure boot_flags)
      (map tcp_w (accepted (ServeTCP demo_feed) g)) (pending (ServeTCP demo_feed) g)" by blast
  moreover have "accepted (ServeTCP demo_feed) g = [demo_conn]" "pending (ServeTCP demo_feed) g = [[]]"
    by (simp_all add: accepted_def pending_def g(3) demo_conn_def)
  moreover have "''tcp_'' @ t_Name demo_feed = ''tcp_mts''" by (simp add: demo_feed_def)
  ultimately show ?thesis using g(1) by (auto simp: demo_conn_def)
qed

end
