(* ===== verification/DevPage.thy ===== *)
theory DevPage
  imports Config Ports Peer
begin

text \<open>
  The dev page (\<^verbatim>\<open>renderDevPage\<close>, \<^verbatim>\<open>renderDevPageHTML\<close> and
  \<^verbatim>\<open>httpProxyAccessNote\<close> of \<^verbatim>\<open>src/fly.go\<close>) byte for byte, with the
  \<^verbatim>\<open>json.MarshalIndent\<close> of the sample configuration. The constant parts are the raw string
  literals of the source, in order; \<open>0xC2 0xB7\<close> is the middle dot and \<open>0xE2 0x80 0x94\<close> the dash
  of its text. \<^verbatim>\<open>sort.Slice\<close> is not stable; the ports it sorts by are pairwise distinct
  once the start has checked them, so every sort gives the order modelled here.
\<close>

abbreviation newline :: string where
  "newline \<equiv> [CHR 0x0A]"

subsection \<open>JSON\<close>

definition json_field :: "string \<Rightarrow> string \<Rightarrow> string" where
  "json_field name v = ''    '' @ json_string name @ '': '' @ v"

text \<open>One entry, with the fields tagged \<^verbatim>\<open>omitempty\<close> left out when empty.\<close>

definition marshal_entry :: "upstreamConfig \<Rightarrow> string" where
  "marshal_entry u =
     ''  {'' @ newline @
     Join ('','' @ newline)
       ([json_field ''name'' (json_string (u_Name u)), json_field ''listen'' (Itoa (u_Listen u)),
         json_field ''target'' (json_string (u_Target u))]
        @ (if u_DBName u \<noteq> [] then [json_field ''dbname'' (json_string (u_DBName u))] else [])
        @ (if u_User u \<noteq> [] then [json_field ''user'' (json_string (u_User u))] else [])
        @ (if u_Password u \<noteq> [] then [json_field ''password'' (json_string (u_Password u))] else []))
     @ newline @ ''  }''"

definition MarshalIndent :: "upstreamConfig list \<Rightarrow> string" where
  "MarshalIndent us = ''['' @ newline @ Join ('','' @ newline) (map marshal_entry us) @ newline @ '']''"

subsection \<open>The constant parts\<close>

definition page_head :: string where
  \<open>page_head = Join newline
    [''<!doctype html>'',
     ''<html><head><meta charset="utf-8"><title>private-gateway</title>'',
     ''<style>'',
     ''body { font-family: -apple-system, system-ui, sans-serif; max-width: 780px; margin: 2em auto; padding: 0 1em; color: #222; line-height: 1.45; }'',
     ''h1 { margin-bottom: 0.1em; }'',
     ''h2 { margin-top: 1.8em; border-bottom: 1px solid #eee; padding-bottom: 4px; }'',
     ''code { background: #f3f3f3; padding: 1px 5px; border-radius: 3px; font-size: 0.95em; }'',
     ''pre { background: #f3f3f3; padding: 10px 12px; border-radius: 4px; overflow-x: auto; font-size: 0.9em; }'',
     ''table { border-collapse: collapse; width: 100%; }'',
     ''th, td { text-align: left; padding: 4px 8px; vertical-align: top; }'',
     ''th { color: #666; font-weight: normal; width: 8em; }'',
     ''.note { color: #555; font-size: 0.95em; }'',
     ''.target { color: #555; }'',
     ''.warn { background: #fff5d6; padding: 10px 12px; border-radius: 4px; border: 1px solid #f0d990; }'',
     ''</style></head><body>'',
     ''<h1>private-gateway</h1>'',
     ''<p class="note">Reachable to Fly apps over 6PN (and to the tailnet via a separate Tailscale subnet router).</p>'',
     [],
     ''<h2>Databases</h2>'',
     []]\<close>

definition page_no_dbs :: string where
  \<open>page_no_dbs = Join newline
    [''<div class="warn">'',
     ''<strong>No databases configured yet.</strong> Set <code>DESTINATION_PG_DBS</code>'',
     (''as a Fly secret to add some '' @ [CHR 0xE2, CHR 0x80, CHR 0x94] @ '' see <em>Configure</em> below.''),
     ''</div>'',
     []]\<close>

definition page_configure :: string where
  \<open>page_configure = Join newline
    [''<h2>Configure</h2>'',
     ''<p>Databases are configured via a single Fly secret named'',
     ''<code>DESTINATION_PG_DBS</code> containing a JSON array. Each entry'',
     ''has a name, a local listen port, and an upstream target (host:port).'',
     ''With <code>user</code> + <code>password</code> (+ optional default'',
     ''<code>dbname</code>) the entry is <strong>managed</strong>: the proxy'',
     ''authenticates to the upstream itself and clients connect with no'',
     (''credentials at all '' @ [CHR 0xE2, CHR 0x80, CHR 0x94] @ '' the client'' @ [CHR 0x27] @ ''s username is ignored, and only the''),
     ''database name in its connection string is honored. Without'',
     ''credentials the entry is a <strong>passthrough</strong> and clients'',
     ''must hold real upstream credentials.'',
     ''Add, rename, or remove databases by editing the secret and redeploying:</p>'',
     (''<pre>fly secrets set DESTINATION_PG_DBS='' @ [CHR 0x27])]\<close>

definition page_deploy :: string where
  \<open>page_deploy = Join newline
    [[CHR 0x27],
     ''fly deploy'',
     ''</pre>'',
     ''<p class="note">Pick a unique <code>listen</code> port per entry. Conventional'',
     ''choices: <code>5432</code> for the primary writer, <code>5433</code> for the first'',
     ''read-only, <code>5434</code> and up for additional read replicas. After'',
     ''deploying, the entry shows up in <em>Databases</em> above and is'',
     ''reachable at <code>'']\<close>

definition page_range :: string where
  \<open>page_range = Join newline
    ['':&lt;listen&gt;</code> from Fly'',
     ''apps (or via a Tailscale subnet router pointed at Fly 6PN).'',
     ''Ports must fall in the reserved Postgres range <code>'']\<close>

definition page_range_end :: string where
  \<open>page_range_end = Join newline
    [''</code>;'',
     ''anything outside it, or clashing with another listener, fails the start.</p>'']\<close>

definition page_tcp_title :: string where
  \<open>page_tcp_title = ''<h2>Plain TCP forwards</h2>''\<close>

definition page_tcp_intro :: string where
  \<open>page_tcp_intro = Join newline
    [''<p>For upstreams that are neither Postgres nor HTTP and that'',
     (''IP-allowlist this app'' @ [CHR 0x27] @ ''s fixed Fly egress IP. The forward is a byte pipe: it''),
     (''parses nothing and terminates no TLS, so the upstream'' @ [CHR 0x27] @ ''s own certificate reaches''),
     ''your client. A client dialing <code>'']\<close>

definition page_tcp_verify :: string where
  \<open>page_tcp_verify = Join newline
    ['':&lt;listen&gt;</code>'',
     (''must therefore verify the <em>upstream'' @ [CHR 0x27] @ ''s</em> hostname, not the address it''),
     (''dialed '' @ [CHR 0xE2, CHR 0x80, CHR 0x94] @ '' most TLS clients expose this as a "server name" setting separate from''),
     ''the connect host.</p>'',
     ''<p>Routing is by listen port: raw TCP carries no destination metadata, so one'',
     ''port forwards to exactly one target. Ports must fall in the reserved TCP range'',
     ''<code>'']\<close>

definition page_tcp_example :: string where
  \<open>page_tcp_example = Join newline
    [''</code>.</p>'',
     (''<pre>fly secrets set DESTINATION_TCP_TARGETS='' @ [CHR 0x27] @ ''[{"name":"mts","listen":9001,"target":"gateway.example.com:5671"}]'' @ [CHR 0x27]),
     ''fly deploy'',
     ''</pre>'']\<close>

definition page_connect :: string where
  \<open>page_connect = Join newline
    [[],
     ''<h2>HTTP CONNECT proxy</h2>'',
     (''<p>For outbound HTTPS calls that need to come from this app'' @ [CHR 0x27] @ ''s fixed''),
     (''Fly egress IP (e.g. IP-allowlisted vendors), use the binary'' @ [CHR 0x27] @ ''s HTTPS''),
     ''<code>CONNECT</code> forward proxy on <code>'']\<close>

definition page_connect_access :: string where
  \<open>page_connect_access = Join newline
    ['':8080</code>.'',
     ''Access is gated to '']\<close>

definition page_connect_curl :: string where
  \<open>page_connect_curl = Join newline
    [''; other sources get <code>403</code>.</p>'',
     ''<pre>curl -x http://'']\<close>

definition page_end :: string where
  \<open>page_end = Join newline
    ['':8080 https://some-vendor.example.com/</pre>'',
     [],
     ''<h2>application_name attribution</h2>'',
     ''<p>Unless your client sets <code>application_name</code> explicitly,'',
     (''the proxy injects one derived from the peer'' @ [CHR 0x27] @ ''s identity:</p>''),
     ''<ul>'',
     ''<li>Fly 6PN clients: <code>&lt;region&gt;.&lt;app&gt;</code>'',
     ''(derived from PTR + <code>vms.&lt;app&gt;.internal</code> TXT).</li>'',
     ''</ul>'',
     ''<p>This shows up in <code>pg_stat_activity.application_name</code> on Neon, so'',
     ''you can attribute traffic and spot noisy neighbors.</p>'',
     [],
     ''<p class="note">Metrics and debug endpoints under <a href="/debug/vars">/debug/vars</a>.</p>'',
     ''</body></html>'',
     []]\<close>

definition httpProxyAccessNote :: "flags \<Rightarrow> string" where
  "httpProxyAccessNote fl =
     (if httpProxyAllowTailscale fl then ''Fly 6PN and the tailnet'' else ''Fly 6PN'')"

subsection \<open>The page\<close>

definition sample_entries :: "upstreamConfig list \<Rightarrow> upstreamConfig list" where
  "sample_entries ordered =
     (let sample = map (\<lambda>u. if u_Password u \<noteq> [] then u\<lparr>u_Password := ''<password>''\<rparr> else u) ordered in
      if sample = [] then
        [\<lparr>u_Name = ''rw'', u_Listen = 5432, u_Target = ''ep-xxx.aws.neon.tech:5432'',
           u_DBName = ''main'', u_User = ''app_user'', u_Password = ''<password>''\<rparr>,
         \<lparr>u_Name = ''admin'', u_Listen = 5439, u_Target = ''ep-xxx.aws.neon.tech:5432'',
           u_DBName = [], u_User = [], u_Password = []\<rparr>]
      else sample)"

definition section_title :: "string \<Rightarrow> int \<Rightarrow> string \<Rightarrow> string" where
  \<open>section_title name n suffix =
     ''<h3>'' @ EscapeString name @ '' <span class="note">port '' @ Itoa n @ suffix @ ''</span></h3>'' @ newline\<close>

definition db_section :: "string \<Rightarrow> upstreamConfig \<Rightarrow> string" where
  \<open>db_section flyHost u =
     section_title (u_Name u) (u_Listen u)
       ('' '' @ [CHR 0xC2, CHR 0xB7] @ '' '' @ (if managed u then ''managed'' else ''passthrough''))
     @ ''<table>'' @ newline
     @ (if managed u then
          (let connPath = (if u_DBName u \<noteq> [] then ''/'' @ u_DBName u else []) in
           ''<tr><th>Fly 6PN</th><td><code>postgres://'' @ EscapeString flyHost @ '':'' @ Itoa (u_Listen u)
           @ EscapeString connPath @ ''</code></td></tr>'' @ newline
           @ ''<tr><th>Upstream user</th><td><code>'' @ EscapeString (u_User u)
           @ ''</code> <span class="note">(injected by the proxy; no client credentials needed)</span></td></tr>'' @ newline
           @ (if u_DBName u \<noteq> [] then
                ''<tr><th>Default db</th><td><code>'' @ EscapeString (u_DBName u)
                @ ''</code> <span class="note">(override with any db name in the connection string)</span></td></tr>'' @ newline
              else []))
        else
          ''<tr><th>Fly 6PN</th><td><code>'' @ EscapeString flyHost @ '':'' @ Itoa (u_Listen u)
          @ ''</code> <span class="note">(client must supply real upstream credentials)</span></td></tr>'' @ newline)
     @ ''<tr><th>Target</th><td class="target"><code>'' @ EscapeString (u_Target u) @ ''</code></td></tr>'' @ newline
     @ ''</table>'' @ newline\<close>

definition tcp_section :: "string \<Rightarrow> tcpTarget \<Rightarrow> string" where
  \<open>tcp_section flyHost t =
     section_title (t_Name t) (t_Listen t) []
     @ ''<table>'' @ newline
     @ ''<tr><th>Fly 6PN</th><td><code>'' @ EscapeString flyHost @ '':'' @ Itoa (t_Listen t) @ ''</code></td></tr>'' @ newline
     @ ''<tr><th>Target</th><td class="target"><code>'' @ EscapeString (t_Target t) @ ''</code></td></tr>'' @ newline
     @ ''</table>'' @ newline\<close>

definition renderDevPageHTML ::
  "flags \<Rightarrow> string \<Rightarrow> upstreamConfig list \<Rightarrow> tcpTarget list \<Rightarrow> bytes" where
  \<open>renderDevPageHTML fl flyHost cfgs tcps =
     (let ordered = sort_key u_Listen cfgs; sampleJSON = MarshalIndent (sample_entries ordered) in
      page_head
      @ (if ordered = [] then page_no_dbs else concat (map (db_section flyHost) ordered))
      @ page_configure @ EscapeString sampleJSON @ page_deploy @ EscapeString flyHost
      @ page_range @ Itoa pgPortMin @ ''-'' @ Itoa pgPortMax @ page_range_end
      @ page_tcp_title
      @ (if tcps = [] then ''<p class="note">None configured.</p>'' @ newline
         else concat (map (tcp_section flyHost) (sort_key t_Listen tcps)))
      @ page_tcp_intro @ EscapeString flyHost @ page_tcp_verify
      @ Itoa tcpPortMin @ ''-'' @ Itoa tcpPortMax @ page_tcp_example
      @ page_connect @ EscapeString flyHost @ page_connect_access @ httpProxyAccessNote fl
      @ page_connect_curl @ EscapeString flyHost @ page_end)\<close>

text \<open>The handler of the debug mux: status, content type and body.\<close>

definition renderDevPage ::
  "flags \<Rightarrow> upstreamConfig list \<Rightarrow> tcpTarget list \<Rightarrow> string \<times> bytes" where
  "renderDevPage fl cfgs tcps =
     (let flyHost = (if FLY_APP_NAME fl \<noteq> [] then FLY_APP_NAME fl @ ''.internal''
                     else ''private-gateway.internal'') in
      (''text/html; charset=utf-8'', renderDevPageHTML fl flyHost cfgs tcps))"

definition dev_page_handler ::
  "flags \<Rightarrow> upstreamConfig list \<Rightarrow> tcpTarget list \<Rightarrow> string \<Rightarrow> (string \<times> bytes) option" where
  "dev_page_handler fl cfgs tcps path =
     (if path \<noteq> ''/'' then None else Some (renderDevPage fl cfgs tcps))"

subsection \<open>Passwords\<close>

lemma sort_key_map_same:
  assumes "\<And>x. key (f x) = key x"
  shows "sort_key key (map f xs) = map f (sort_key key xs)"
proof -
  have "insort_key key (f x) (map f ys) = map f (insort_key key x ys)" for x ys
    by (induction ys) (simp_all add: assms)
  then show ?thesis by (induction xs) simp_all
qed

text \<open>Every password replaced by another one; what is not set stays unset.\<close>

definition change_password ::
  "(upstreamConfig \<Rightarrow> char) \<Rightarrow> (upstreamConfig \<Rightarrow> string) \<Rightarrow> upstreamConfig \<Rightarrow> upstreamConfig" where
  "change_password c s u =
     (if u_Password u = [] then u else u\<lparr>u_Password := c u # s u\<rparr>)"

lemma change_password_simps [simp]:
  "u_Name (change_password c s u) = u_Name u" "u_Listen (change_password c s u) = u_Listen u"
  "u_Target (change_password c s u) = u_Target u" "u_DBName (change_password c s u) = u_DBName u"
  "u_User (change_password c s u) = u_User u" "managed (change_password c s u) = managed u"
  by (simp_all add: change_password_def managed_def)

lemma sample_entries_password:
  "sample_entries (map (change_password c s) us) = sample_entries us"
proof -
  have "(if u_Password (change_password c s u) \<noteq> [] then (change_password c s u)\<lparr>u_Password := ''<password>''\<rparr>
      else change_password c s u) = (if u_Password u \<noteq> [] then u\<lparr>u_Password := ''<password>''\<rparr> else u)" for u
    by (simp add: change_password_def)
  then have "map (\<lambda>u. if u_Password u \<noteq> [] then u\<lparr>u_Password := ''<password>''\<rparr> else u)
      (map (change_password c s) us)
    = map (\<lambda>u. if u_Password u \<noteq> [] then u\<lparr>u_Password := ''<password>''\<rparr> else u) us"
    by (simp only: map_map o_def)
  then show ?thesis unfolding sample_entries_def by (simp only:)
qed

lemma db_section_password: "db_section h (change_password c s u) = db_section h u"
  by (simp only: db_section_def change_password_simps)

text \<open>C38: passwords never reach the dev page: the page is the same, byte for byte, whatever the
  configured passwords are; only whether an entry has one shows.\<close>

theorem dev_page_hides_passwords:
  "dev_page_handler fl (map (change_password c s) cfgs) tcps path = dev_page_handler fl cfgs tcps path"
proof -
  have sorted: "sort_key u_Listen (map (change_password c s) cfgs)
      = map (change_password c s) (sort_key u_Listen cfgs)"
    by (rule sort_key_map_same) simp
  have "concat (map (db_section h) (map (change_password c s) us)) = concat (map (db_section h) us)" for h us
    by (simp add: o_def db_section_password)
  then have "renderDevPageHTML fl h (map (change_password c s) cfgs) tcps = renderDevPageHTML fl h cfgs tcps" for h
    unfolding renderDevPageHTML_def sorted Let_def sample_entries_password map_is_Nil_conv
    by (simp only:)
  then show ?thesis by (simp add: dev_page_handler_def renderDevPage_def Let_def)
qed

subsection \<open>Markup\<close>

text \<open>The characters of a page that can open or close a tag or an attribute.\<close>

definition markup :: "string \<Rightarrow> string" where
  "markup s = filter (\<lambda>c. c \<in> {CHR 0x22, CHR 0x27, CHR 0x3C, CHR 0x3E}) s"

lemma markup_append [simp]: "markup (xs @ ys) = markup xs @ markup ys"
  by (simp add: markup_def)

lemma markup_EscapeString [simp]: "markup (EscapeString s) = []"
  using EscapeString_safe [of s] by (auto simp: markup_def filter_empty_conv)

lemma markup_Itoa [simp]: "markup (Itoa n) = []"
proof -
  have "c \<in> set (Itoa n) \<Longrightarrow> is_digit c \<or> c = CHR ''-''" for c
    using itoa_nat_digits [of "nat n"] itoa_nat_digits [of "nat (- n)"]
    by (auto simp: Itoa_def list_all_iff split: if_splits)
  moreover have "\<not> is_digit (CHR 0x22)" "\<not> is_digit (CHR 0x27)" "\<not> is_digit (CHR 0x3C)"
    "\<not> is_digit (CHR 0x3E)" by (simp_all add: is_digit_def)
  ultimately show ?thesis by (fastforce simp: markup_def filter_empty_conv)
qed

text \<open>The shape of an entry: what decides which rows its table has.\<close>

definition shape :: "upstreamConfig \<Rightarrow> bool \<times> bool" where
  "shape u = (managed u, managed u \<and> u_DBName u \<noteq> [])"

lemma markup_db_section:
  "shape u = shape v \<Longrightarrow> markup (db_section h u) = markup (db_section h' v)"
  by (cases "managed u"; cases "u_DBName u = []"; cases "u_DBName v = []")
    (simp_all add: shape_def db_section_def section_title_def Let_def del: append.simps)

lemma map_by_shape:
  assumes "map shape us = map shape vs" "\<And>u v. shape u = shape v \<Longrightarrow> f u = g v"
  shows "map f us = map g vs"
  using assms(1)
proof (induction us arbitrary: vs)
  case (Cons u us)
  then obtain v vs' where "vs = v # vs'" "shape u = shape v" "map shape us = map shape vs'"
    by (cases vs) auto
  with Cons.IH [of vs'] assms(2) [of u v] show ?case by simp
qed simp

lemma markup_tcp_section: "markup (tcp_section h t) = markup (tcp_section h' t')"
  by (simp add: tcp_section_def section_title_def del: append.simps)

lemma markup_concat: "markup (concat xss) = concat (map markup xss)"
  by (induction xss) (simp_all add: markup_def)

text \<open>C39: no configured text can inject markup into the dev page: the sequence of its quotes and
  angle brackets is fixed by the number of entries and their shape, so two configurations of
  the same shape, with any names, targets, users, databases and host, give pages with the same
  tags and attributes.\<close>

theorem dev_page_markup_fixed:
  assumes "map shape (sort_key u_Listen cfgs) = map shape (sort_key u_Listen cfgs')"
    and "length tcps = length tcps'"
  shows "markup (renderDevPageHTML fl h cfgs tcps) = markup (renderDevPageHTML fl' h' cfgs' tcps')"
proof -
  let ?us = "sort_key u_Listen cfgs" and ?vs = "sort_key u_Listen cfgs'"
  have len: "length ?us = length ?vs" using assms(1) by (metis length_map)
  then have e: "(?us = []) = (?vs = [])" "(tcps = []) = (tcps' = [])"
    using assms(2) by (metis length_0_conv) (metis assms(2) length_0_conv)
  have "map (\<lambda>u. markup (db_section h u)) ?us = map (\<lambda>v. markup (db_section h' v)) ?vs"
    using assms(1) markup_db_section by (rule map_by_shape)
  then have 1: "markup (concat (map (db_section h) ?us)) = markup (concat (map (db_section h') ?vs))"
    by (simp add: markup_concat o_def)
  have "map (\<lambda>t. markup (tcp_section h t)) (sort_key t_Listen tcps)
      = map (\<lambda>t. markup (tcp_section h' t)) (sort_key t_Listen tcps')"
    using assms(2) by - (rule nth_equalityI, simp, simp, rule markup_tcp_section)
  then have 2: "markup (concat (map (tcp_section h) (sort_key t_Listen tcps)))
      = markup (concat (map (tcp_section h') (sort_key t_Listen tcps')))"
    by (simp add: markup_concat o_def)
  have 3: "markup (httpProxyAccessNote fl) = markup (httpProxyAccessNote fl')"
    by (simp add: httpProxyAccessNote_def markup_def)
  show ?thesis
    unfolding renderDevPageHTML_def Let_def
    by (simp only: markup_append markup_EscapeString markup_Itoa 3 e 1 2 if_distrib [of markup])
qed

definition demo_entry :: "string \<Rightarrow> int \<Rightarrow> upstreamConfig" where
  "demo_entry s n = \<lparr>u_Name = s, u_Listen = n, u_Target = s, u_DBName = s, u_User = ''app'',
     u_Password = s\<rparr>"

theorem dev_page_markup_fixed_witness:
  \<open>\<forall>fl. markup (renderDevPageHTML fl ''gw.internal'' [demo_entry ''rw'' 5432] [])
     = markup (renderDevPageHTML fl ''<b>'' [demo_entry ''<script>"x"'' 5440] [])\<close>
  by (rule allI, rule dev_page_markup_fixed) (simp_all add: shape_def managed_def demo_entry_def)

text \<open>The sample the page offers for copying does not show its placeholder as written: the JSON
  encoder escapes its angle brackets before the page does.\<close>

lemma sample_placeholder:
  "json_string ''<password>'' = [CHR 0x22, CHR 0x5C] @ ''u003cpassword'' @ [CHR 0x5C] @ ''u003e'' @ [CHR 0x22]"
  by code_simp

end
