(* ===== verification/SampleConfig.thy ===== *)
theory SampleConfig
  imports DevPage
begin

text \<open>
  The sample configuration of the dev page read back: what \<^verbatim>\<open>json.MarshalIndent\<close> writes for a
  list of Postgres entries is decoded by \<^verbatim>\<open>json.Unmarshal\<close>, and accepted by the configuration
  parser, to those entries.
\<close>

subsection \<open>Tokens of the encoding\<close>

text \<open>A text that lexes to the given tokens whatever follows it.\<close>

definition lexes :: "string \<Rightarrow> token list \<Rightarrow> bool" where
  "lexes x ts = (\<forall>r. tokenize (x @ r) =
     (case tokenize r of None \<Rightarrow> None | Some us \<Rightarrow> Some (ts @ us)))"

lemma lexes_Nil: "lexes [] []"
  by (simp add: lexes_def split: option.split)

lemma lexes_append: "lexes x ts \<Longrightarrow> lexes y us \<Longrightarrow> lexes (x @ y) (ts @ us)"
  by (simp add: lexes_def split: option.split)

lemma lexes_ws: "is_ws c \<Longrightarrow> lexes [c] []"
  by (simp add: lexes_def tokenize.simps [of "c # _"] split: option.split)

lemma lexes_punct: "punct c = Some t \<Longrightarrow> lexes [c] [t]"
proof -
  assume p: "punct c = Some t"
  then have "\<not> is_ws c" by (auto simp: punct_def is_ws_def split: if_splits)
  with p show ?thesis by (simp add: lexes_def tokenize.simps [of "c # _"] next_token_def split: option.split)
qed

lemma lexes_string: "lexes (json_string x) [TStr (to_valid x)]"
proof -
  have "punct (CHR 0x22) = None" "\<not> is_ws (CHR 0x22)" by (simp_all add: punct_def is_ws_def)
  then show ?thesis
    by (simp add: lexes_def json_string_def tokenize.simps [of "CHR 0x22 # _"] next_token_def unquote_escape
        split: option.split)
qed

lemma lexes_spaces: "list_all is_ws w \<Longrightarrow> lexes w []"
proof (induction w)
  case (Cons c w)
  with lexes_append [OF lexes_ws [of c], of w "[]"] show ?case by simp
qed (simp add: lexes_Nil)

text \<open>A port and the comma that follows it.\<close>

lemma itoa_nat_zero: "hd (itoa_nat n) = CHR ''0'' \<Longrightarrow> itoa_nat n = ''0''"
proof (induction n rule: itoa_nat.induct)
  case (1 n)
  show ?case
  proof (cases "n < 10")
    case True
    with "1.prems" have "digit n = CHR ''0''" by (simp add: itoa_nat.simps [of n])
    with True show ?thesis by (simp add: itoa_nat.simps [of n])
  next
    case False
    then have e: "itoa_nat n = itoa_nat (n div 10) @ [digit (n mod 10)]"
      by (simp add: itoa_nat.simps [of n])
    with "1.prems" False "1.IH" have "itoa_nat (n div 10) = ''0''" by simp
    then have "digits_val (itoa_nat (n div 10)) = 0" by (simp add: digits_val_def)
    with False show ?thesis by simp
  qed
qed

lemma number_lit_Itoa:
  assumes "0 \<le> n"
  shows "number_lit (Itoa n @ CHR '','' # r) = Some (Itoa n, CHR '','' # r)"
proof -
  let ?d = "itoa_nat (nat n)"
  have I: "Itoa n = ?d" using assms by (simp add: Itoa_def)
  have ds: "list_all is_digit ?d" "?d \<noteq> []" by (simp_all add: itoa_nat_digits)
  have "\<not> is_digit (CHR '','')" by (simp add: is_digit_def)
  then have tw: "takeWhile is_digit (?d @ CHR '','' # r) = ?d"
    "dropWhile is_digit (?d @ CHR '','' # r) = CHR '','' # r"
    using ds(1) by (simp_all add: takeWhile_append dropWhile_append list_all_iff)
  have "int_part (?d @ CHR '','' # r) = Some (?d, CHR '','' # r)"
  proof (cases "hd ?d = CHR ''0''")
    case True
    then have "?d = ''0''" by (rule itoa_nat_zero)
    then show ?thesis by (simp add: int_part_def)
  next
    case False
    with ds tw show ?thesis by (simp add: int_part_def digits1_def)
  qed
  moreover have "optional ''-'' (?d @ CHR '','' # r) = ([], ?d @ CHR '','' # r)"
    using ds(2) itoa_nat_hd(1) [of "nat n"] by (simp add: optional_def)
  ultimately show ?thesis
    by (simp add: I number_lit_def frac_part_def exp_part_def)
qed

lemma lexes_port:
  assumes "0 \<le> n"
  shows "lexes (Itoa n @ '','') [TNum (Itoa n), Comma]"
proof -
  have h: "Itoa n \<noteq> []" "is_digit (hd (Itoa n))"
    using assms itoa_nat_digits [of "nat n"] by (auto simp: Itoa_def list_all_iff)
  have "\<not> is_ws c \<and> punct c = None \<and> c \<noteq> CHR 0x22" if "is_digit c" for c
  proof -
    have "list_all (\<lambda>k. \<not> is_digit k) [CHR 0x20, CHR 0x09, CHR 0x0D, CHR 0x0A, CHR 0x7B, CHR 0x7D,
        CHR 0x5B, CHR 0x5D, CHR 0x3A, CHR 0x2C, CHR 0x22]" by code_simp
    with that have "c \<notin> set [CHR 0x20, CHR 0x09, CHR 0x0D, CHR 0x0A, CHR 0x7B, CHR 0x7D,
        CHR 0x5B, CHR 0x5D, CHR 0x3A, CHR 0x2C, CHR 0x22]" unfolding list_all_iff by blast
    then show ?thesis by (simp add: is_ws_def punct_def)
  qed
  from this [OF h(2)] have "\<not> is_ws (hd (Itoa n))" "punct (hd (Itoa n)) = None"
    "hd (Itoa n) \<noteq> CHR 0x22" by blast+
  with h have t: "tokenize (Itoa n @ CHR '','' # r) = map_option ((#) (TNum (Itoa n))) (tokenize (CHR '','' # r))" for r
    unfolding tokenize.simps [of "Itoa n @ CHR '','' # r"]
    by (simp add: next_token_def number_lit_Itoa [OF assms])
  moreover have "tokenize (CHR '','' # r) = map_option ((#) Comma) (tokenize r)" for r
    by (simp add: tokenize.simps [of "CHR '','' # r"] next_token_def punct_def is_ws_def)
  ultimately show ?thesis by (simp add: lexes_def split: option.split)
qed

fun sep_by :: "'a \<Rightarrow> 'a list list \<Rightarrow> 'a list" where
  "sep_by c [] = []"
| "sep_by c [x] = x"
| "sep_by c (x # xs) = x @ c # sep_by c xs"

lemma lexes_newline: "lexes newline []"
  by (rule lexes_ws) (simp add: is_ws_def)

lemma lexes_Join:
  "list_all2 lexes xs tss \<Longrightarrow> lexes (Join ('','' @ newline) xs) (sep_by Comma tss)"
proof (induction xs arbitrary: tss)
  case (Cons x xs)
  then obtain ts tss' where t: "tss = ts # tss'" "lexes x ts" "list_all2 lexes xs tss'"
    by (auto simp: list_all2_Cons1)
  have c: "lexes ('','' @ newline) [Comma]"
    using lexes_append [OF lexes_punct [of "CHR '',''" Comma] lexes_newline] by (simp add: punct_def)
  show ?case
  proof (cases xs)
    case Nil
    with t show ?thesis by simp
  next
    case (Cons y ys)
    with t obtain us uss where "tss' = us # uss" by (auto simp: list_all2_Cons1)
    with lexes_append [OF t(2) lexes_append [OF c Cons.IH [OF t(3)]]] Cons t(1)
    show ?thesis by simp
  qed
qed (simp add: lexes_Nil)

subsection \<open>One entry\<close>

text \<open>The members written for an entry, as the values they are read back as.\<close>

definition entry_members :: "upstreamConfig \<Rightarrow> (string \<times> json) list" where
  "entry_members u =
     [(''name'', JStr (u_Name u)), (''listen'', JNum (Itoa (u_Listen u))), (''target'', JStr (u_Target u))]
     @ (if u_DBName u \<noteq> [] then [(''dbname'', JStr (u_DBName u))] else [])
     @ (if u_User u \<noteq> [] then [(''user'', JStr (u_User u))] else [])
     @ (if u_Password u \<noteq> [] then [(''password'', JStr (u_Password u))] else [])"

fun scalar_token :: "json \<Rightarrow> token" where
  "scalar_token (JStr s) = TStr s"
| "scalar_token (JNum n) = TNum n"
| "scalar_token (JBool b) = (if b then TTrue else TFalse)"
| "scalar_token _ = TNull"

abbreviation member_tokens :: "string \<times> json \<Rightarrow> token list" where
  "member_tokens m \<equiv> [TStr (fst m), Colon, scalar_token (snd m)]"

abbreviation object_tokens :: "(string \<times> json) list \<Rightarrow> token list" where
  "object_tokens ms \<equiv> [LBrace] @ sep_by Comma (map member_tokens ms) @ [RBrace]"

text \<open>The strings of an entry are valid UTF-8, as those of any decoded entry are.\<close>

definition valid_strings :: "upstreamConfig \<Rightarrow> bool" where
  "valid_strings u = (valid_utf8 (u_Name u) \<and> valid_utf8 (u_Target u) \<and> valid_utf8 (u_DBName u)
     \<and> valid_utf8 (u_User u) \<and> valid_utf8 (u_Password u))"

lemma lexes_string_valid: "valid_utf8 x \<Longrightarrow> lexes (json_string x) [TStr x]"
  using lexes_string [of x] by (simp add: to_valid_id)

lemma lexes_key: "valid_utf8 k \<Longrightarrow> lexes (''    '' @ json_string k @ '': '') [TStr k, Colon]"
  using lexes_append [OF lexes_spaces [of "''    ''"] lexes_append [OF lexes_string_valid
        lexes_append [OF lexes_punct [of "CHR '':''" Colon] lexes_ws [of "CHR '' ''"]]]]
  by (simp add: is_ws_def punct_def)

lemma lexes_field:
  "valid_utf8 k \<Longrightarrow> valid_utf8 v \<Longrightarrow>
     lexes (json_field k (json_string v)) (member_tokens (k, JStr v))"
  using lexes_append [OF lexes_key lexes_string_valid, of k v] by (simp add: json_field_def)

lemma valid_keys:
  "valid_utf8 ''name''" "valid_utf8 ''listen''" "valid_utf8 ''target''" "valid_utf8 ''dbname''"
  "valid_utf8 ''user''" "valid_utf8 ''password''" "valid_utf8 ''<password>''"
  by (code_simp, code_simp, code_simp, code_simp, code_simp, code_simp, code_simp)

lemma lexes_entry:
  assumes "valid_strings u" "0 \<le> u_Listen u"
  shows "lexes (marshal_entry u) (object_tokens (entry_members u))"
proof -
  let ?opt = "(if u_DBName u \<noteq> [] then [json_field ''dbname'' (json_string (u_DBName u))] else [])
        @ (if u_User u \<noteq> [] then [json_field ''user'' (json_string (u_User u))] else [])
        @ (if u_Password u \<noteq> [] then [json_field ''password'' (json_string (u_Password u))] else [])"
  let ?omem = "(if u_DBName u \<noteq> [] then [(''dbname'', JStr (u_DBName u))] else [])
     @ (if u_User u \<noteq> [] then [(''user'', JStr (u_User u))] else [])
     @ (if u_Password u \<noteq> [] then [(''password'', JStr (u_Password u))] else [])"
  let ?tail = "json_field ''target'' (json_string (u_Target u)) # ?opt"
  let ?tmem = "(''target'', JStr (u_Target u)) # ?omem"
  have v: "valid_utf8 (u_Name u)" "valid_utf8 (u_Target u)" "valid_utf8 (u_DBName u)"
     "valid_utf8 (u_User u)" "valid_utf8 (u_Password u)"
    using assms(1) by (simp_all add: valid_strings_def)
  have "list_all2 lexes ?tail (map member_tokens ?tmem)"
    using lexes_field [OF valid_keys(3) v(2)] lexes_field [OF valid_keys(4) v(3)]
      lexes_field [OF valid_keys(5) v(4)] lexes_field [OF valid_keys(6) v(5)] by simp
  from lexes_Join [OF this]
  have tail: "lexes (Join ('','' @ newline) ?tail) (sep_by Comma (map member_tokens ?tmem))" .
  have comma: "lexes ('','' @ newline) [Comma]"
    using lexes_append [OF lexes_punct [of "CHR '',''" Comma] lexes_newline] by (simp add: punct_def)
  have port: "lexes ((''    '' @ json_string ''listen'' @ '': '') @ (Itoa (u_Listen u) @ '','') @ newline)
      ([TStr ''listen'', Colon] @ [TNum (Itoa (u_Listen u)), Comma] @ [])"
    by (intro lexes_append lexes_key lexes_port lexes_newline valid_keys assms(2))
  have op: "lexes ((''  '' @ ''{'') @ newline) (([] @ [LBrace]) @ [])"
    by (intro lexes_append lexes_spaces lexes_punct lexes_newline) (simp_all add: is_ws_def punct_def)
  have cl: "lexes (newline @ ''  '' @ ''}'') ([] @ [] @ [RBrace])"
    by (intro lexes_append lexes_spaces lexes_punct lexes_newline) (simp_all add: is_ws_def punct_def)
  have "lexes (((''  '' @ ''{'') @ newline) @ json_field ''name'' (json_string (u_Name u)) @ ('','' @ newline)
        @ ((''    '' @ json_string ''listen'' @ '': '') @ (Itoa (u_Listen u) @ '','') @ newline)
        @ Join ('','' @ newline) ?tail @ (newline @ ''  '' @ ''}''))
      ((([] @ [LBrace]) @ []) @ member_tokens (''name'', JStr (u_Name u)) @ [Comma]
        @ ([TStr ''listen'', Colon] @ [TNum (Itoa (u_Listen u)), Comma] @ [])
        @ sep_by Comma (map member_tokens ?tmem) @ ([] @ [] @ [RBrace]))"
    by (intro lexes_append [OF op] lexes_append [OF lexes_field [OF valid_keys(1) v(1)]]
        lexes_append [OF comma] lexes_append [OF port] lexes_append [OF tail] cl)
  moreover have "marshal_entry u = (((''  '' @ ''{'') @ newline) @ json_field ''name'' (json_string (u_Name u)) @ ('','' @ newline)
        @ ((''    '' @ json_string ''listen'' @ '': '') @ (Itoa (u_Listen u) @ '','') @ newline)
        @ Join ('','' @ newline) ?tail @ (newline @ ''  '' @ ''}''))"
    by (simp add: marshal_entry_def json_field_def [of "''listen''"])
  moreover have "object_tokens (entry_members u) = ((([] @ [LBrace]) @ []) @ member_tokens (''name'', JStr (u_Name u)) @ [Comma]
        @ ([TStr ''listen'', Colon] @ [TNum (Itoa (u_Listen u)), Comma] @ [])
        @ sep_by Comma (map member_tokens ?tmem) @ ([] @ [] @ [RBrace]))"
    by (simp add: entry_members_def)
  ultimately show ?thesis by (simp only:)
qed

subsection \<open>Reading the tokens\<close>

definition scalar :: "json \<Rightarrow> bool" where
  "scalar v = (case v of JArr vs \<Rightarrow> False | JObj ms \<Rightarrow> False | _ \<Rightarrow> True)"

lemma parse_member:
  assumes "scalar v"
  shows "parse_run (member_tokens (k, v) @ ts) (ObjFrame ms None # fs, BeginString)
    = parse_run ts (ObjFrame (ms @ [(k, v)]) None # fs, EndValue)"
  using assms
  by (cases v) (auto simp: scalar_def begin_string_def begin_value_def end_value_def)

lemma parse_members:
  "\<forall>m \<in> set new. scalar (snd m) \<Longrightarrow> new \<noteq> [] \<Longrightarrow>
     parse_run (sep_by Comma (map member_tokens new) @ ts) (ObjFrame ms None # fs, BeginString)
     = parse_run ts (ObjFrame (ms @ new) None # fs, EndValue)"
proof (induction new arbitrary: ms)
  case (Cons m new)
  obtain k v where m: "m = (k, v)" by (cases m)
  show ?case
  proof (cases new)
    case Nil
    with Cons.prems m parse_member [of v k ts ms fs] show ?thesis by simp
  next
    case (Cons m' new')
    with Cons.prems Cons.IH [of "ms @ [m]"] m
      parse_member [of v k "Comma # sep_by Comma (map member_tokens new) @ ts" ms fs]
    show ?thesis by simp
  qed
qed simp

lemma parse_object:
  assumes "\<forall>m \<in> set ms. scalar (snd m)" "ms \<noteq> []" "length fs < maxNestingDepth"
  shows "parse_run (object_tokens ms @ ts) (fs, BeginValue)
    = (case end_value (JObj ms) fs of None \<Rightarrow> None | Some st \<Rightarrow> parse_run ts st)"
proof -
  obtain k v ms' where ms: "ms = (k, v) # ms'" using assms(2) by (cases ms) auto
  then obtain us where us: "sep_by Comma (map member_tokens ms) = TStr k # us"
    by (cases ms') auto
  have "parse_step (TStr k) (ObjFrame [] None # fs, BeginStringOrEmpty)
      = parse_step (TStr k) (ObjFrame [] None # fs, BeginString)" by simp
  then have "parse_run (sep_by Comma (map member_tokens ms) @ RBrace # ts) (ObjFrame [] None # fs, BeginStringOrEmpty)
      = parse_run (sep_by Comma (map member_tokens ms) @ RBrace # ts) (ObjFrame [] None # fs, BeginString)"
    unfolding us by simp
  also have "\<dots> = parse_run (RBrace # ts) (ObjFrame ms None # fs, EndValue)"
    using parse_members [OF assms(1,2), of "RBrace # ts" "[]" fs] by simp
  finally show ?thesis
    using assms(3) by (simp add: begin_value_def push_def close_def)
qed

lemma entry_members_scalar: "\<forall>m \<in> set (entry_members u). scalar (snd m)" "entry_members u \<noteq> []"
  by (auto simp: entry_members_def scalar_def)

lemma parse_entries:
  "us \<noteq> [] \<Longrightarrow>
     parse_run (sep_by Comma (map (\<lambda>u. object_tokens (entry_members u)) us) @ ts) ([ArrFrame vs], BeginValue)
     = parse_run ts ([ArrFrame (vs @ map (\<lambda>u. JObj (entry_members u)) us)], EndValue)"
proof (induction us arbitrary: vs)
  case (Cons u us)
  have one: "parse_run (object_tokens (entry_members u) @ ts') ([ArrFrame vs], BeginValue)
      = parse_run ts' ([ArrFrame (vs @ [JObj (entry_members u)])], EndValue)" for ts'
    using parse_object [OF entry_members_scalar(1) entry_members_scalar(2), of "[ArrFrame vs]" u ts']
    by (simp add: maxNestingDepth_def end_value_def)
  show ?case
  proof (cases us)
    case Nil
    with one [of ts] show ?thesis by simp
  next
    case (Cons u' us')
    with Cons.IH [of "vs @ [JObj (entry_members u)]"]
      one [of "Comma # sep_by Comma (map (\<lambda>u. object_tokens (entry_members u)) us) @ ts"]
    show ?thesis by simp
  qed
qed simp

lemma parse_MarshalIndent:
  assumes "us \<noteq> []" "\<forall>u \<in> set us. valid_strings u \<and> 0 \<le> u_Listen u"
  shows "parse_json (MarshalIndent us) = Some (JArr (map (\<lambda>u. JObj (entry_members u)) us))"
proof -
  let ?tss = "map (\<lambda>u. object_tokens (entry_members u)) us"
  have "list_all2 lexes (map marshal_entry us) ?tss"
    unfolding list_all2_map1 list_all2_map2 list_all2_same using assms(2) lexes_entry by blast
  from lexes_append [OF lexes_append [OF lexes_punct [of "CHR ''[''" LBracket] lexes_newline]
      lexes_append [OF lexes_Join [OF this] lexes_append [OF lexes_newline
          lexes_punct [of "CHR '']''" RBracket]]]]
  have "lexes (MarshalIndent us) ([LBracket] @ sep_by Comma ?tss @ [RBracket])"
    by (simp add: MarshalIndent_def punct_def)
  then have t: "tokenize (MarshalIndent us) = Some ([LBracket] @ sep_by Comma ?tss @ [RBracket])"
    unfolding lexes_def by (auto dest: spec [of _ "[]"] simp: tokenize.simps [of "[]"])
  obtain u us' where us: "us = u # us'" using assms(1) by (cases us) auto
  then obtain rest where "sep_by Comma ?tss = LBrace # rest"
    by (cases us') auto
  then have "parse_run (sep_by Comma ?tss @ [RBracket]) ([ArrFrame []], BeginValueOrEmpty)
      = parse_run (sep_by Comma ?tss @ [RBracket]) ([ArrFrame []], BeginValue)" by simp
  also have "\<dots> = parse_run [RBracket] ([ArrFrame (map (\<lambda>u. JObj (entry_members u)) us)], EndValue)"
    using parse_entries [OF assms(1), of "[RBracket]" "[]"] by simp
  finally show ?thesis
    by (simp add: parse_json_def t begin_value_def push_def maxNestingDepth_def close_def end_value_def)
qed

lemma pg_keys:
  "field_is ''name'' ''name''"
  "\<not> field_is ''name'' ''listen''" "field_is ''listen'' ''listen''"
  "\<not> field_is ''name'' ''target''" "\<not> field_is ''listen'' ''target''" "field_is ''target'' ''target''"
  "\<not> field_is ''name'' ''dbname''" "\<not> field_is ''listen'' ''dbname''" "\<not> field_is ''target'' ''dbname''"
  "field_is ''dbname'' ''dbname''"
  "\<not> field_is ''name'' ''user''" "\<not> field_is ''listen'' ''user''" "\<not> field_is ''target'' ''user''"
  "\<not> field_is ''dbname'' ''user''" "field_is ''user'' ''user''"
  "\<not> field_is ''name'' ''password''" "\<not> field_is ''listen'' ''password''"
  "\<not> field_is ''target'' ''password''" "\<not> field_is ''dbname'' ''password''"
  "\<not> field_is ''user'' ''password''" "field_is ''password'' ''password''"
  by code_simp+

lemma store_entry:
  assumes "0 \<le> u_Listen u" "u_Listen u < 2 ^ 63"
  shows "store_struct pg_member (JObj (entry_members u)) no_config = Some u"
proof -
  have "Atoi (Itoa (u_Listen u)) = Some (u_Listen u)"
    using Atoi_itoa_nat [of "nat (u_Listen u)"] assms by (simp add: Itoa_def)
  then show ?thesis
    by (simp add: entry_members_def pg_member_def pg_keys no_config_def)
qed

lemma store_entries:
  "\<forall>u \<in> set us. 0 \<le> u_Listen u \<and> u_Listen u < 2 ^ 63 \<Longrightarrow>
     store_all (\<lambda>x. store_struct pg_member x no_config) (map (\<lambda>u. JObj (entry_members u)) us) = Some us"
  by (induction us) (simp_all add: store_entry del: store_struct.simps)

lemma Unmarshal_MarshalIndent:
  assumes "us \<noteq> []"
    and "\<forall>u \<in> set us. valid_strings u \<and> 0 \<le> u_Listen u \<and> u_Listen u < 2 ^ 63"
  shows "pg_Unmarshal (MarshalIndent us) = Some us"
  using parse_MarshalIndent [of us] store_entries [of us] assms by (simp add: pg_Unmarshal_def)

subsection \<open>What the configuration parser returns\<close>

lemma pg_member_valid:
  "pg_member k v u = Some u' \<Longrightarrow> json_ok v \<Longrightarrow> valid_strings u \<Longrightarrow> valid_strings u'"
  by (cases v) (auto simp: pg_member_def valid_strings_def split: if_splits)

lemma pg_Unmarshal_valid: "pg_Unmarshal s = Some us \<Longrightarrow> list_all valid_strings us"
proof -
  have members: "store_members pg_member ms u = Some u' \<Longrightarrow>
      list_all (\<lambda>m. valid_utf8 (fst m) \<and> json_ok (snd m)) ms \<Longrightarrow> valid_strings u \<Longrightarrow> valid_strings u'"
    for ms u u'
    by (induction pg_member ms u rule: store_members.induct)
      (auto split: option.splits dest: pg_member_valid)
  have "valid_strings no_config" by (simp add: valid_strings_def no_config_def)
  then have struct: "store_struct pg_member v no_config = Some u \<Longrightarrow> json_ok v \<Longrightarrow> valid_strings u" for v u
    using members by (cases v) auto
  have all: "store_all (\<lambda>x. store_struct pg_member x no_config) vs = Some us \<Longrightarrow>
      list_all json_ok vs \<Longrightarrow> list_all valid_strings us" for vs us
    by (induction vs arbitrary: us) (auto split: option.splits dest: struct)
  assume "pg_Unmarshal s = Some us"
  then obtain v where v: "parse_json s = Some v"
    "store_slice (\<lambda>x. store_struct pg_member x no_config) v = Some us"
    by (auto simp: pg_Unmarshal_def split: option.splits)
  with parse_json_ok [OF v(1)] all show ?thesis by (cases v) auto
qed

lemma space_runes_valid: "\<forall>w \<in> set space_runes. valid_utf8 w"
  by code_simp

lemma TrimLeftSpace_valid: "valid_utf8 s \<Longrightarrow> valid_utf8 (TrimLeftSpace s)"
proof (induction s rule: TrimLeftSpace.induct)
  case (1 s)
  show ?case
  proof (cases "space_front s = 0")
    case False
    from space_front_rune [OF this] obtain w where w: "w \<in> set space_runes" "take (length w) s = w"
      "space_front s = length w" by blast
    from w(2) have "s = w @ drop (length w) s" by (metis append_take_drop_id)
    with "1.prems" w space_runes_valid have "valid_utf8 (drop (space_front s) s)"
      by (metis valid_rest)
    with "1.IH" [OF False] False show ?thesis by (simp add: TrimLeftSpace.simps [of s])
  qed (use "1.prems" in \<open>simp add: TrimLeftSpace.simps [of s]\<close>)
qed

lemma TrimRightSpace_valid: "valid_utf8 s \<Longrightarrow> valid_utf8 (TrimRightSpace s)"
proof (induction s rule: TrimRightSpace.induct)
  case (1 s)
  show ?case
  proof (cases "space_end s = 0")
    case False
    from space_end_rune [OF this] obtain w where w: "w \<in> set space_runes" "HasSuffix s w"
      "space_end s = length w" by blast
    then obtain xs where "s = xs @ w" by (auto simp: HasSuffix_iff)
    with "1.prems" w space_runes_valid have "valid_utf8 (take (length s - space_end s) s)"
      using valid_front [of xs w] by simp
    with "1.IH" [OF False] False show ?thesis by (simp add: TrimRightSpace.simps [of s])
  qed (use "1.prems" in \<open>simp add: TrimRightSpace.simps [of s]\<close>)
qed

lemma TrimSpace_valid: "valid_utf8 s \<Longrightarrow> valid_utf8 (TrimSpace s)"
  by (simp add: TrimSpace_def TrimLeftSpace_valid TrimRightSpace_valid)

text \<open>What holds of every entry the parser returns.\<close>

definition entry_final :: "upstreamConfig \<Rightarrow> bool" where
  "entry_final u = (pg_ok u \<and> valid_strings u \<and> pg_norm u = u)"

lemma parsed_entries:
  assumes "parseDestinationPgDbsJSON raw = Inr cfgs"
  shows "list_all entry_final cfgs \<and> distinct (map u_Name cfgs) \<and> distinct (map u_Listen cfgs)"
proof (cases "TrimSpace raw = []")
  case True
  with assms show ?thesis by (simp add: parseDestinationPgDbsJSON_def)
next
  case False
  with assms obtain us where us: "pg_Unmarshal (TrimSpace raw) = Some us" and
    cfgs: "cfgs = map pg_norm us" "list_all pg_ok cfgs" "distinct (map u_Name cfgs)"
      "distinct (map u_Listen cfgs)"
    by (auto simp: parseDestinationPgDbsJSON_def pg_entries_accepts Let_def split: option.splits)
  have "valid_strings (pg_norm u) \<and> pg_norm (pg_norm u) = pg_norm u" if "u \<in> set us" for u
    using that pg_Unmarshal_valid [OF us]
    by (simp add: list_all_iff valid_strings_def pg_norm_def TrimSpace_valid TrimSpace_idem)
  with cfgs show ?thesis by (auto simp: entry_final_def list_all_iff)
qed

lemma accepted_again:
  assumes "S \<noteq> []" "list_all entry_final S" "distinct (map u_Name S)" "distinct (map u_Listen S)"
  shows "parseDestinationPgDbsJSON (MarshalIndent S) = Inr S"
proof -
  have "\<forall>u \<in> set S. valid_strings u \<and> 0 \<le> u_Listen u \<and> u_Listen u < 2 ^ 63"
    using assms(2) by (auto simp: entry_final_def pg_ok_def list_all_iff)
  from Unmarshal_MarshalIndent [OF assms(1) this]
  have u: "pg_Unmarshal (MarshalIndent S) = Some S" .
  have "space_front (CHR ''['' # t) = 0" for t
    by (rule space_front_printable) simp_all
  moreover have "space_end (t @ [CHR '']'']) = 0" for t
    by (rule space_end_printable) simp_all
  moreover have "MarshalIndent S = CHR ''['' # (newline @ Join ('','' @ newline) (map marshal_entry S) @ newline) @ [CHR '']'']"
    by (simp add: MarshalIndent_def)
  ultimately have t: "TrimSpace (MarshalIndent S) = MarshalIndent S"
    by (metis TrimSpace_fixed append_Cons)
  have "map pg_norm S = S"
    using assms(2) by (intro map_idI) (auto simp: entry_final_def list_all_iff)
  moreover have "list_all pg_ok S" using assms(2) by (auto simp: entry_final_def list_all_iff)
  ultimately have "pg_entries 0 pg_init S = Inr S"
    using assms(3,4) by (simp add: pg_entries_accepts)
  moreover have "MarshalIndent S \<noteq> []" by (simp add: MarshalIndent_def)
  ultimately show ?thesis by (simp add: parseDestinationPgDbsJSON_def t u)
qed

text \<open>C19: every configuration the gateway runs with is in final form: names and targets trimmed and
  well formed, ports in range, credentials complete or absent, every string valid UTF-8 whatever
  bytes and escapes the text had, names and ports pairwise distinct, and trimming again changes
  nothing.\<close>

theorem parsed_configuration_final:
  assumes "parseDestinationPgDbsJSON raw = Inr cfgs"
  shows "list_all (\<lambda>u. pg_ok u \<and> valid_strings u \<and> pg_norm u = u) cfgs
    \<and> distinct (map u_Name cfgs) \<and> distinct (map u_Listen cfgs)"
  using parsed_entries [OF assms] by (simp add: entry_final_def list_all_iff)

theorem parsed_configuration_final_witness:
  \<open>\<exists>u. parseDestinationPgDbsJSON ''[{"NAME":" rw ","listen":5432,"target":"db:5432","x":[{}]}]'' = Inr [u]
     \<and> u_Name u = ''rw'' \<and> pg_ok u \<and> valid_strings u\<close>
proof -
  let ?raw = \<open>''[{"NAME":" rw ","listen":5432,"target":"db:5432","x":[{}]}]''\<close>
  let ?u = "\<lparr>u_Name = ''rw'', u_Listen = 5432, u_Target = ''db:5432'', u_DBName = [], u_User = [],
    u_Password = []\<rparr>"
  have p: "parseDestinationPgDbsJSON ?raw = Inr [?u]" by code_simp
  from parsed_configuration_final [OF p] p show ?thesis by auto
qed

text \<open>C20: the configuration the dev page offers for editing is itself a valid one: whatever text the
  gateway was started with, the JSON of the sample, set as the new configuration, is accepted
  and yields exactly the sample's entries: the running ones in port order with their passwords
  replaced, or the two built-in examples when there are none.\<close>

theorem sample_is_valid_configuration:
  assumes "parseDestinationPgDbsJSON raw = Inr cfgs"
  shows "parseDestinationPgDbsJSON (MarshalIndent (sample_entries (sort_key u_Listen cfgs)))
      = Inr (sample_entries (sort_key u_Listen cfgs))
    \<and> (cfgs \<noteq> [] \<longrightarrow> map (\<lambda>u. (u_Name u, u_Listen u, u_Target u, u_DBName u, u_User u))
          (sample_entries (sort_key u_Listen cfgs))
        = map (\<lambda>u. (u_Name u, u_Listen u, u_Target u, u_DBName u, u_User u)) (sort_key u_Listen cfgs))"
proof (cases "cfgs = []")
  case True
  have "sample_entries [] \<noteq> []" "list_all entry_final (sample_entries [])"
    "distinct (map u_Name (sample_entries []))" "distinct (map u_Listen (sample_entries []))"
    by (code_simp, code_simp, code_simp, code_simp)
  from accepted_again [OF this] True show ?thesis by simp
next
  case False
  let ?ph = "\<lambda>u. if u_Password u \<noteq> [] then u\<lparr>u_Password := ''<password>''\<rparr> else u"
  let ?sorted = "sort_key u_Listen cfgs"
  have "?sorted \<noteq> []" using False by (metis length_0_conv length_sort)
  then have S: "sample_entries ?sorted = map ?ph ?sorted" "map ?ph ?sorted \<noteq> []"
    by (simp_all add: sample_entries_def Let_def)
  from parsed_entries [OF assms] have f: "\<forall>u \<in> set cfgs. entry_final u"
    and d: "distinct (map u_Name cfgs)" "distinct (map u_Listen cfgs)"
    by (simp_all add: list_all_iff)
  have "entry_final (?ph u)" if "entry_final u" for u
    using that valid_keys(7) by (cases u) (auto simp: entry_final_def pg_ok_def valid_strings_def pg_norm_def)
  then have fin: "list_all entry_final (map ?ph ?sorted)"
    unfolding list_all_iff set_map set_sort using f by blast
  have "map u_Name (map ?ph ?sorted) = map u_Name ?sorted"
    "map u_Listen (map ?ph ?sorted) = map u_Listen ?sorted" by simp_all
  moreover have "distinct (map u_Name ?sorted)" "distinct (map u_Listen ?sorted)"
    using d by (simp_all add: distinct_map)
  ultimately have "distinct (map u_Name (map ?ph ?sorted))" "distinct (map u_Listen (map ?ph ?sorted))"
    by (simp_all only:)
  from accepted_again [OF S(2) fin this] show ?thesis by (simp add: S(1))
qed

theorem sample_is_valid_configuration_witness:
  \<open>\<exists>cfgs. parseDestinationPgDbsJSON
       ''[{"name":"rw","listen":5432,"target":"db:5432","user":"app","password":"secret"}]'' = Inr cfgs
     \<and> map u_Password (projr (parseDestinationPgDbsJSON
          (MarshalIndent (sample_entries (sort_key u_Listen cfgs))))) = [''<password>'']\<close>
proof -
  let ?raw = \<open>''[{"name":"rw","listen":5432,"target":"db:5432","user":"app","password":"secret"}]''\<close>
  let ?u = "\<lparr>u_Name = ''rw'', u_Listen = 5432, u_Target = ''db:5432'', u_DBName = [], u_User = ''app'',
    u_Password = ''secret''\<rparr>"
  have p: "parseDestinationPgDbsJSON ?raw = Inr [?u]" by code_simp
  from sample_is_valid_configuration [OF p] p show ?thesis
    by (simp add: sample_entries_def)
qed

end
