(* ===== verification/Spec2Isabelle.thy ===== *)
theory Spec2Isabelle
  imports Peer Config Ports Startup Splice_Model Trace Handler TcpProxy HttpProxy Framing
    Dns DnsMessages DnsAnswers DnsServers Caching Ident IdentRaces PgProxy PgSessions PgManaged
    PgEndToEnd Expvar Utf8 Json Bootstrap Gateway DevPage SampleConfig
begin

text \<open>
  A verification development of the private gateway, a Go process that gives the apps of a Fly
  organisation and the members of a tailnet access to fixed upstreams: Postgres databases, plain
  TCP targets, HTTPS hosts through a CONNECT proxy, and the DNS names of the private network.

  \<^bold>\<open>The program.\<close> \<^verbatim>\<open>main\<close> (\<^verbatim>\<open>src/pgproxy.go\<close>) binds the debug page and calls
  \<^verbatim>\<open>runProxies\<close> (\<^verbatim>\<open>src/fly.go\<close>), which parses the two lists of targets, checks the table of
  listen ports, starts one listener per target and the CONNECT proxy, and starts the DNS
  forwarder. Every listener decides by the source address of a connection
  (\<^verbatim>\<open>classifyPeer\<close>). The Postgres proxy names the client, insists on verified TLS to the
  upstream, rewrites the client's startup message to carry that name (or, in managed mode,
  authenticates upstream itself), and then, as the other proxies do from the start, copies
  bytes both ways.

  \<^bold>\<open>Shared vocabulary.\<close> \<open>Prelude\<close> (bytes, results, big-endian integers, reading from a
  connection), \<open>GoStd\<close> (the string functions of Go's standard library the program calls),
  \<open>GoNet\<close> (host:port, textual addresses, prefixes), \<open>Utf8\<close> (runes and their encoding) and
  \<open>Json\<close> (\<^verbatim>\<open>encoding/json\<close>: syntax with the nesting limit of 10000, string literals, the
  storing of values into strings, integers, structs, slices and pointers, and the encoder of
  strings) model the language and its library. A Go
  string or byte slice is a \<open>char list\<close>; a fallible function returns \<open>'e + 'v\<close>, or an option
  where the program ignores the error's content; IPv4 and IPv6 addresses are 32-bit and
  128-bit words; lengths read off the wire are naturals below their width, written back modulo
  it. A connection's input is the list of bytes it will still deliver.

  \<^bold>\<open>Components.\<close>
  \<^item> \<open>Peer\<close>: flags, trusted prefixes, \<^verbatim>\<open>classifyPeer\<close>, the CONNECT admission rule; the locale
    \<open>source_gate\<close> is what a listener's rule must satisfy.
  \<^item> \<open>Config\<close>, \<open>Ports\<close>: the two configuration parsers from the raw text on (their loops are
    instances of \<open>entry_loop\<close>) and \<^verbatim>\<open>validateListenPorts\<close>, each with an exact
    characterisation of what it accepts.
  \<^item> \<open>Startup\<close>: Postgres startup messages, reading, parsing, rewriting. \<open>set_app\<close> on a parameter
    list is the abstract operation \<^verbatim>\<open>rewriteStartup\<close> refines.
  \<^item> \<open>Trace\<close>, \<open>Handler\<close>: the events of a connection handler, the counters as the fold of the
    events of interleaved sessions (\<open>counted_handler\<close>), and the contract between a handler and
    the source gate (\<open>gated_handler\<close>).
  \<^item> \<open>Splice_Model\<close>: the two-way copy as a step relation on streams that end, fail or fall
    silent, two copiers and a result channel of any capacity; the closing of both connections
    by the function that started the copiers is a step, and what ends the slower copier.
  \<^item> \<open>TcpProxy\<close>, \<open>HttpProxy\<close>: the handlers of \<^verbatim>\<open>src/tcpproxy.go\<close> and
    \<^verbatim>\<open>src/httpproxy.go\<close>, instances of both handler contracts.
  \<^item> \<open>Caching\<close>, \<open>Ident\<close>: expiring caches (\<open>ttl_cache\<close>) and the identity of a client: reverse
    lookup, region inventory and WhoIs of \<^verbatim>\<open>src/fly.go\<close>; both caches are instances.
  \<^item> \<open>IdentRaces\<close>: the same lookup cut into the steps between which other lookups may run, shown
    equal to it when run alone, and any number of lookups interleaved.
  \<^item> \<open>PgProxy\<close>, \<open>PgSessions\<close>, \<open>PgManaged\<close>: the handler of \<^verbatim>\<open>src/pgproxy.go\<close> with
    \<^verbatim>\<open>forwardStartup\<close>, the managed mode of \<^verbatim>\<open>src/credentials-manager.go\<close>, and their
    properties. \<open>PgEndToEnd\<close> composes them with the identity of the client and the splice.
  \<^item> \<open>Expvar\<close>: the maps the proxies publish (\<^verbatim>\<open>Expvar\<close> of the three proxies) and what they
    account for (\<open>accounted_handler\<close>, a \<open>counted_handler\<close> whose starts and errors are known).
  \<^item> \<open>Framing\<close>, \<open>Dns\<close>, \<open>DnsMessages\<close>, \<open>DnsAnswers\<close>, \<open>DnsServers\<close>: the DNS forwarder of
    \<^verbatim>\<open>src/dns.go\<close>. The framing of DNS over TCP, resource records and startup messages are
    instances of \<open>framing\<close>; the self-rewrite and the aliases of \<open>local_answerer\<close>.
  \<^item> \<open>Bootstrap\<close>: \<^verbatim>\<open>main\<close>, \<^verbatim>\<open>runProxies\<close> and \<^verbatim>\<open>startDNSForwarder\<close> as an event sequence.
  \<^item> \<open>Gateway\<close>: the whole process as one step relation: the main goroutine performing that
    start, the listeners it has begun to serve, all their connections interleaved, the counters
    by published name. A listener's part of a run is a run of that listener alone.
  \<^item> \<open>DevPage\<close>: the HTML page of the debug port, byte for byte. \<open>SampleConfig\<close> relates the JSON
    it shows to the configuration parser: lexing, parsing and storing the encoder's output.

  \<^bold>\<open>The outside.\<close> What the program gets from elsewhere is a field of a record of the world
  (\<open>tcp_world\<close>, \<open>http_world\<close>, \<open>pg_world\<close>, \<open>ident_world\<close>, \<open>dns_env\<close>, \<open>boot_env\<close>) or a parameter:
  whether a dial, a bind, a write or a TLS handshake succeeds, what the resolver and the local
  tailscaled answer (status and raw body), clock readings, the x509 primitives, and the pgx
  library with its message encoders; what pgconn answers to a connection attempt is a function
  of the configuration it is given, password included. No property assumes
  anything of them but what its statement says.

  \<^bold>\<open>Loops and bounds.\<close> Every function is total: loops over text, messages and lists are
  recursive with a decreasing measure (the name parser on the bytes left, the DNS connection
  on the stream left, the JSON lexer on the text left). The only step count is that of a lookup
  run alone: six steps always suffice, which \<open>lookup_steps_refine\<close> states. The splice is a
  relation; that its session is torn down in every run is proved to hold exactly when the
  channel is buffered (the program uses capacities 1 and 2) and some peer ends its stream.

  \<^bold>\<open>What is proved.\<close> Of the whole process: whatever leaves it does so for a trusted peer, to the
  configured target of the listener that peer connected to and with that entry's credentials,
  and the published counters account for exactly the connections of their listener. Of its
  parts: who is served, and that nobody else causes any outbound traffic (every listener); that
  no session byte leaves for a Postgres upstream before verified TLS; the exact exchange of
  passthrough and managed sessions, what the upstream is told of the client in both modes, that
  a passthrough splice delivers prefixes of the rewritten message and the client's bytes, that
  a client without TLS is always turned away by a passthrough entry, because the reply of the
  upstream is read into the array that holds the client's first bytes, and that a configured
  password never shows on the dev page, and to clients only if pgconn itself tells them; the
  effect of rewriting on the parameters the upstream reads, with the way a client can evade it;
  exact acceptance of configurations and ports, the form every accepted configuration is in, that the
  sample the dev page offers parses to itself, and that a valid start never binds a port or
  registers a name twice; freshness of cached identities, also when lookups race; that DNS
  questions, answers and TCP framing round-trip, which queries are answered locally and with
  what, and that all others are relayed unchanged; that the splice leaks no goroutine, and
  exactly when it ends.

  \<^bold>\<open>Not modelled.\<close> The cryptography inside TLS and certificates; log lines; timeouts, except as
  the failure of the operation they bound; in the splice, a peer that stops reading. In \<open>Gateway\<close> a connection meets identity caches of
  any content (which only allows more runs; \<open>IdentRaces\<close> says what the caches can hold), a
  handler's remote results are fixed when it is accepted, and the DNS forwarder, which shares no
  state with the proxies, does not take part. The shell scripts that start the container are not
  part of the Go program.
\<close>

end
